theory Spec2Isabelle
  imports Main "HOL-Library.AList" "HOL-Library.Multiset" "HOL-Library.Sublist"
begin

section \<open>JavaScript values of the task server\<close>

text \<open>
  The backend (\<^verbatim>\<open>todo-app/server.js\<close>) is an Express application. Request bodies are parsed
  JSON; stored tasks are plain objects whose fields hold JSON values or \<^verbatim>\<open>Date\<close> objects.
  Strings are code-unit lists restricted to code units below 256; JSON numbers are restricted
  to integers (the store never computes with position coordinates, it passes them through).
  The list of an object holds each key once, as the parsed body does.
\<close>

datatype json =
    JNull
  | JBool bool
  | JNum int
  | JStr string
  | JArr "json list"
  | JObj "(string \<times> json) list"

text \<open>A \<^verbatim>\<open>Date\<close> object carries a time value in milliseconds; \<open>None\<close> is the time value
  NaN of an Invalid Date.\<close>

datatype jsval =
    Undefined
  | Json json
  | DateObj "int option"

text \<open>The numbers the sort comparator computes with.\<close>

datatype jsnum = Fin int | PosInf | NegInf | NaN

type_synonym task = "(string \<times> jsval) list"

text \<open>An operation of the language either completes normally with a value or throws. The one
  error these handlers can meet inside the language is the \<^verbatim>\<open>TypeError\<close> of converting an
  object to a primitive value.\<close>

datatype 'a completion = Throw | Normal 'a

text \<open>What the runtime supplies: \<^verbatim>\<open>Date.parse\<close> (\<open>None\<close> for NaN); the string \<^verbatim>\<open>String\<close>
  gives a number of magnitude above \<open>2\<^sup>5\<^sup>3\<close>, where it is no longer the number's own
  digits (the shortest digits that identify the double, filled with zeros or, from
  \<open>10\<^sup>2\<^sup>1\<close>, in exponent notation); and the message of that \<^verbatim>\<open>TypeError\<close>.\<close>

record js_runtime =
  Date_parse :: "string \<Rightarrow> int option"
  Number_toString_large :: "int \<Rightarrow> string"
  TypeError_message :: string

subsection \<open>Truthiness, \<^verbatim>\<open>String(v)\<close>, \<^verbatim>\<open>trim\<close>\<close>

fun json_truthy :: "json \<Rightarrow> bool" where
  "json_truthy JNull = False"
| "json_truthy (JBool b) = b"
| "json_truthy (JNum n) = (n \<noteq> 0)"
| "json_truthy (JStr s) = (s \<noteq> [])"
| "json_truthy (JArr xs) = True"
| "json_truthy (JObj kvs) = True"

fun truthy :: "jsval \<Rightarrow> bool" where
  "truthy Undefined = False"
| "truthy (Json j) = json_truthy j"
| "truthy (DateObj t) = True"

definition digit_char :: "nat \<Rightarrow> char" where
  "digit_char d = ''0123456789'' ! d"

fun digits :: "nat \<Rightarrow> string" where
  "digits n = (if n < 10 then [digit_char n] else digits (n div 10) @ [digit_char (n mod 10)])"

declare digits.simps [simp del]

definition string_of_int :: "int \<Rightarrow> string" where
  "string_of_int i = (if i < 0 then CHR ''-'' # digits (nat (- i)) else digits (nat i))"

fun join_comma :: "string list \<Rightarrow> string" where
  "join_comma [] = []"
| "join_comma [s] = s"
| "join_comma (s # t # ss) = s @ CHR '','' # join_comma (t # ss)"

text \<open>\<^verbatim>\<open>String(n)\<close> of a number: its decimal digits up to \<open>2\<^sup>5\<^sup>3\<close>, the runtime's string
  beyond.\<close>

definition Number_toString :: "js_runtime \<Rightarrow> int \<Rightarrow> string" where
  "Number_toString R n =
     (if \<bar>n\<bar> \<le> 9007199254740992 then string_of_int n else Number_toString_large R n)"

text \<open>The first throw of a list of completions, or all their values.\<close>

fun sequence :: "'a completion list \<Rightarrow> 'a list completion" where
  "sequence [] = Normal []"
| "sequence (Throw # cs) = Throw"
| "sequence (Normal x # cs) =
     (case sequence cs of Throw \<Rightarrow> Throw | Normal xs \<Rightarrow> Normal (x # xs))"

text \<open>\<^verbatim>\<open>String(v)\<close> on a parsed JSON value. An array joins the strings of its elements with
  commas, a \<^verbatim>\<open>null\<close> element giving the empty string. A plain object is converted through
  its \<^verbatim>\<open>toString\<close> and \<^verbatim>\<open>valueOf\<close> properties: the inherited \<^verbatim>\<open>toString\<close> gives
  \<^verbatim>\<open>[object Object]\<close>; an own \<^verbatim>\<open>toString\<close> property, which in a parsed body is never a
  function, hides it, and then neither an own nor the inherited \<^verbatim>\<open>valueOf\<close> gives a
  primitive, so the conversion throws.\<close>

fun String_js :: "js_runtime \<Rightarrow> json \<Rightarrow> string completion" where
  "String_js R JNull = Normal ''null''"
| "String_js R (JBool b) = Normal (if b then ''true'' else ''false'')"
| "String_js R (JNum n) = Normal (Number_toString R n)"
| "String_js R (JStr s) = Normal s"
| "String_js R (JArr xs) =
     (case sequence (map (\<lambda>x. if x = JNull then Normal [] else String_js R x) xs) of
        Throw \<Rightarrow> Throw
      | Normal strs \<Rightarrow> Normal (join_comma strs))"
| "String_js R (JObj kvs) =
     (if ''toString'' \<in> fst ` set kvs then Throw else Normal ''[object Object]'')"

definition is_js_whitespace :: "char \<Rightarrow> bool" where
  "is_js_whitespace c \<longleftrightarrow>
     c \<in> set [CHR 0x09, CHR 0x0A, CHR 0x0B, CHR 0x0C, CHR 0x0D, CHR 0x20, CHR 0xA0]"

definition trim :: "string \<Rightarrow> string" where
  "trim s = rev (dropWhile is_js_whitespace (rev (dropWhile is_js_whitespace s)))"

subsection \<open>Dates\<close>

definition TimeClip :: "int \<Rightarrow> int option" where
  "TimeClip t = (if \<bar>t\<bar> \<le> 8640000000000000 then Some t else None)"

text \<open>\<^verbatim>\<open>new Date(v)\<close>: the time value of the new object. A \<^verbatim>\<open>Date\<close> argument gives its own
  time value; an array or object is first converted to a primitive, which for these values
  is the string \<^verbatim>\<open>String\<close> gives, or throws as \<^verbatim>\<open>String\<close> does; a string is parsed; any
  other primitive is taken as a number.\<close>

fun new_Date :: "js_runtime \<Rightarrow> jsval \<Rightarrow> int option completion" where
  "new_Date R (DateObj t) = Normal t"
| "new_Date R Undefined = Normal None"
| "new_Date R (Json JNull) = Normal (Some 0)"
| "new_Date R (Json (JBool b)) = Normal (Some (if b then 1 else 0))"
| "new_Date R (Json (JNum n)) = Normal (TimeClip n)"
| "new_Date R (Json (JStr s)) = Normal (Date_parse R s)"
| "new_Date R (Json (JArr xs)) =
     (case String_js R (JArr xs) of Throw \<Rightarrow> Throw | Normal str \<Rightarrow> Normal (Date_parse R str))"
| "new_Date R (Json (JObj kvs)) =
     (case String_js R (JObj kvs) of Throw \<Rightarrow> Throw | Normal str \<Rightarrow> Normal (Date_parse R str))"

definition getTime :: "int option \<Rightarrow> jsnum" where
  "getTime t = (case t of None \<Rightarrow> NaN | Some n \<Rightarrow> Fin n)"

fun js_minus :: "jsnum \<Rightarrow> jsnum \<Rightarrow> jsnum" where
  "js_minus NaN y = NaN"
| "js_minus x NaN = NaN"
| "js_minus (Fin a) (Fin b) = Fin (a - b)"
| "js_minus (Fin a) PosInf = NegInf"
| "js_minus (Fin a) NegInf = PosInf"
| "js_minus PosInf (Fin b) = PosInf"
| "js_minus PosInf PosInf = NaN"
| "js_minus PosInf NegInf = PosInf"
| "js_minus NegInf (Fin b) = NegInf"
| "js_minus NegInf PosInf = NegInf"
| "js_minus NegInf NegInf = NaN"

subsection \<open>Objects and arrays\<close>

text \<open>Property read \<^verbatim>\<open>o.k\<close>: \<^verbatim>\<open>undefined\<close> when the object has no such property.\<close>

definition field :: "task \<Rightarrow> string \<Rightarrow> jsval" where
  "field t k = (case map_of t k of None \<Rightarrow> Undefined | Some v \<Rightarrow> v)"

text \<open>What a JSON response shows of a stored field: a \<^verbatim>\<open>Date\<close> is written as its ISO string
  (the function \<open>toISOString\<close> of its time value), an Invalid Date as \<^verbatim>\<open>null\<close>; an undefined field
  is left out.\<close>

definition toJSON_field :: "(int \<Rightarrow> string) \<Rightarrow> jsval \<Rightarrow> json option" where
  "toJSON_field toISOString v =
     (case v of
        Undefined \<Rightarrow> None
      | Json j \<Rightarrow> Some j
      | DateObj None \<Rightarrow> Some JNull
      | DateObj (Some t) \<Rightarrow> Some (JStr (toISOString t)))"

text \<open>Object spread \<^verbatim>\<open>{ ...a, ...b }\<close>: the properties of \<open>b\<close> overwrite those of \<open>a\<close> in
  place and new ones are appended.\<close>

definition spread :: "task \<Rightarrow> task \<Rightarrow> task" where
  "spread a b = foldl (\<lambda>acc (k, v). AList.update k v acc) a b"

fun findIndex :: "('a \<Rightarrow> bool) \<Rightarrow> 'a list \<Rightarrow> nat option" where
  "findIndex P [] = None"
| "findIndex P (x # xs) = (if P x then Some 0 else map_option Suc (findIndex P xs))"

text \<open>\<^verbatim>\<open>xs.splice(idx, 1)\<close>.\<close>

definition splice1 :: "nat \<Rightarrow> 'a list \<Rightarrow> 'a list" where
  "splice1 idx xs = take idx xs @ drop (Suc idx) xs"

text \<open>\<^verbatim>\<open>Array.prototype.sort(cmp)\<close>. The comparator's result is used by its sign, NaN counting
  as 0; when a call of the comparator throws, so does the sort. For a consistent comparator
  the language fixes the result: the stable sort. It is modelled as the stable insertion
  sort; on an inconsistent comparator the order, and the pairs compared, are left to the
  implementation, and the model is then one possible outcome.\<close>

fun js_negative :: "jsnum \<Rightarrow> bool" where
  "js_negative (Fin n) = (n < 0)"
| "js_negative NegInf = True"
| "js_negative PosInf = False"
| "js_negative NaN = False"

fun insert_by :: "('a \<Rightarrow> 'a \<Rightarrow> jsnum completion) \<Rightarrow> 'a \<Rightarrow> 'a list \<Rightarrow> 'a list completion" where
  "insert_by cmp x [] = Normal [x]"
| "insert_by cmp x (y # ys) =
     (case cmp x y of
        Throw \<Rightarrow> Throw
      | Normal v \<Rightarrow>
          (if js_negative v then Normal (x # y # ys)
           else (case insert_by cmp x ys of Throw \<Rightarrow> Throw | Normal zs \<Rightarrow> Normal (y # zs))))"

fun sort_into :: "('a \<Rightarrow> 'a \<Rightarrow> jsnum completion) \<Rightarrow> 'a list \<Rightarrow> 'a list \<Rightarrow> 'a list completion" where
  "sort_into cmp acc [] = Normal acc"
| "sort_into cmp acc (x # xs) =
     (case insert_by cmp x acc of Throw \<Rightarrow> Throw | Normal acc' \<Rightarrow> sort_into cmp acc' xs)"

definition Array_sort :: "('a \<Rightarrow> 'a \<Rightarrow> jsnum completion) \<Rightarrow> 'a list \<Rightarrow> 'a list completion" where
  "Array_sort cmp xs = sort_into cmp [] xs"

section \<open>The server\<close>

text \<open>The Mongoose model \<^verbatim>\<open>Task\<close> and the database behind it are not code of this
  repository: the calls the handlers make on them are parameters, next to the runtime. An
  operation returns \<open>Inl msg\<close> when it throws an error with message \<open>msg\<close>.\<close>

record 'db platform =
  js :: js_runtime
  Task_find_sort :: "'db \<Rightarrow> string + task list"
  Task_findById :: "'db \<Rightarrow> string \<Rightarrow> string + task option"
  Task_save :: "'db \<Rightarrow> task \<Rightarrow> (string + task) \<times> 'db"
  Task_findByIdAndUpdate :: "'db \<Rightarrow> string \<Rightarrow> task \<Rightarrow> (string + task option) \<times> 'db"
  Task_findByIdAndDelete :: "'db \<Rightarrow> string \<Rightarrow> (string + task option) \<times> 'db"

record 'db server =
  readyState :: nat
  db :: "'db"
  inMemoryTasks :: "task list"
  inMemoryIdCounter :: nat

datatype body = Message string | TaskDoc task | TaskDocs "task list"

type_synonym response = "nat \<times> body"

definition isDbConnected :: "'db server \<Rightarrow> bool" where
  "isDbConnected s \<longleftrightarrow> readyState s = 1"

subsection \<open>GET /tasks\<close>

text \<open>\<^verbatim>\<open>a.dueDate ? new Date(a.dueDate).getTime() : Infinity\<close>.\<close>

definition due_key :: "js_runtime \<Rightarrow> task \<Rightarrow> jsnum completion" where
  "due_key R a =
     (if truthy (field a ''dueDate'') then
        (case new_Date R (field a ''dueDate'') of
           Throw \<Rightarrow> Throw
         | Normal t \<Rightarrow> Normal (getTime t))
      else Normal PosInf)"

text \<open>The comparator: the completion flags first; the key of \<open>a\<close> is computed before that
  of \<open>b\<close>.\<close>

definition task_compare :: "js_runtime \<Rightarrow> task \<Rightarrow> task \<Rightarrow> jsnum completion" where
  "task_compare R a b =
     (if truthy (field a ''completed'') \<noteq> truthy (field b ''completed'')
      then Normal (if truthy (field a ''completed'') then Fin 1 else Fin (- 1))
      else
        (case due_key R a of
           Throw \<Rightarrow> Throw
         | Normal ka \<Rightarrow>
             (case due_key R b of
                Throw \<Rightarrow> Throw
              | Normal kb \<Rightarrow> Normal (js_minus ka kb))))"

text \<open>An error thrown while the fallback collection is sorted reaches the handler's
  \<^verbatim>\<open>catch\<close>, which answers 500 with the error's message.\<close>

definition get_tasks :: "'db platform \<Rightarrow> 'db server \<Rightarrow> response \<times> 'db server" where
  "get_tasks P s =
     (if isDbConnected s then
        (case Task_find_sort P (db s) of
           Inl msg \<Rightarrow> ((500, Message msg), s)
         | Inr tasks \<Rightarrow> ((200, TaskDocs tasks), s))
      else
        (case Array_sort (task_compare (js P)) (inMemoryTasks s) of
           Throw \<Rightarrow> ((500, Message (TypeError_message (js P))), s)
         | Normal listing \<Rightarrow> ((200, TaskDocs listing), s)))"

subsection \<open>GET /tasks/:id\<close>

definition get_task :: "'db platform \<Rightarrow> string \<Rightarrow> 'db server \<Rightarrow> response \<times> 'db server" where
  "get_task P ident s =
     (if isDbConnected s then
        (case Task_findById P (db s) ident of
           Inl msg \<Rightarrow> ((500, Message msg), s)
         | Inr None \<Rightarrow> ((404, Message ''Task not found''), s)
         | Inr (Some t) \<Rightarrow> ((200, TaskDoc t), s))
      else
        (case find (\<lambda>t. field t ''_id'' = Json (JStr ident)) (inMemoryTasks s) of
           None \<Rightarrow> ((404, Message ''Task not found''), s)
         | Some t \<Rightarrow> ((200, TaskDoc t), s)))"

subsection \<open>POST /tasks\<close>

text \<open>A field of the parsed request body; \<open>None\<close> when the body has no such field, which
  the handler reads as \<^verbatim>\<open>undefined\<close>.\<close>

definition body_field :: "(string \<times> json) list \<Rightarrow> string \<Rightarrow> json option" where
  "body_field b k = map_of b k"

definition to_val :: "json option \<Rightarrow> jsval" where
  "to_val f = (case f of None \<Rightarrow> Undefined | Some v \<Rightarrow> Json v)"

text \<open>\<^verbatim>\<open>String(text)\<close> of a body field.\<close>

definition String_field :: "js_runtime \<Rightarrow> json option \<Rightarrow> string completion" where
  "String_field R f = (case f of None \<Rightarrow> Normal ''undefined'' | Some v \<Rightarrow> String_js R v)"

text \<open>\<^verbatim>\<open>dueDate ? new Date(dueDate) : null\<close>.\<close>

definition due_of_body :: "js_runtime \<Rightarrow> json option \<Rightarrow> jsval completion" where
  "due_of_body R d =
     (if truthy (to_val d) then
        (case new_Date R (to_val d) of Throw \<Rightarrow> Throw | Normal t \<Rightarrow> Normal (DateObj t))
      else Normal (Json JNull))"

text \<open>\<^verbatim>\<open>position ?? null\<close>.\<close>

definition nullish_null :: "json option \<Rightarrow> jsval" where
  "nullish_null v = (case v of None \<Rightarrow> Json JNull | Some j \<Rightarrow> Json j)"

text \<open>The handler logs the body first, which has no effect on the state or the answer and
  is left out. Every error thrown inside it reaches its \<^verbatim>\<open>catch\<close>, which answers 400 with
  the error's message.

  On the fallback path the fields of the new record are computed in the order they are
  written: the id, which reads the clock (\<open>t_id\<close>) and raises the id counter; the text; the
  two stamps, each from its own \<^verbatim>\<open>new Date()\<close> (\<open>t_created\<close>, then \<open>t_updated\<close>); the due
  date. When the due date throws, the counter has been raised already and the record is
  never stored.\<close>

definition post_task ::
  "'db platform \<Rightarrow> (string \<times> json) list \<Rightarrow> int \<Rightarrow> int \<Rightarrow> int \<Rightarrow> 'db server \<Rightarrow> response \<times> 'db server"
where
  "post_task P reqbody t_id t_created t_updated s =
     (let text = body_field reqbody ''text'';
          dueDate = body_field reqbody ''dueDate'';
          position = body_field reqbody ''position''
      in
      if \<not> truthy (to_val text) then ((400, Message ''Task text is required.''), s)
      else
        (case String_field (js P) text of
           Throw \<Rightarrow> ((400, Message (TypeError_message (js P))), s)
         | Normal str \<Rightarrow>
             if trim str = [] then ((400, Message ''Task text is required.''), s)
             else if isDbConnected s then
               (case due_of_body (js P) dueDate of
                  Throw \<Rightarrow> ((400, Message (TypeError_message (js P))), s)
                | Normal due \<Rightarrow>
                    (case Task_save P (db s)
                            [(''text'', Json (JStr (trim str))),
                             (''dueDate'', due),
                             (''position'', nullish_null position)] of
                       (Inl msg, d) \<Rightarrow> ((400, Message msg), s\<lparr>db := d\<rparr>)
                     | (Inr doc, d) \<Rightarrow> ((201, TaskDoc doc), s\<lparr>db := d\<rparr>)))
             else
               (case due_of_body (js P) dueDate of
                  Throw \<Rightarrow>
                    ((400, Message (TypeError_message (js P))),
                     s\<lparr>inMemoryIdCounter := inMemoryIdCounter s + 1\<rparr>)
                | Normal due \<Rightarrow>
                    (let newTask =
                           [(''_id'',
                             Json (JStr (string_of_int t_id @ ''-'' @ digits (inMemoryIdCounter s)))),
                            (''text'', Json (JStr (trim str))),
                            (''completed'', Json (JBool False)),
                            (''createdAt'', DateObj (Some t_created)),
                            (''updatedAt'', DateObj (Some t_updated)),
                            (''dueDate'', due),
                            (''position'', nullish_null position)]
                     in ((201, TaskDoc newTask),
                         s\<lparr>inMemoryTasks := inMemoryTasks s @ [newTask],
                           inMemoryIdCounter := inMemoryIdCounter s + 1\<rparr>)))))"

subsection \<open>PUT /tasks/:id\<close>

definition put_payload :: "(string \<times> json) list \<Rightarrow> int \<Rightarrow> task" where
  "put_payload reqbody now =
     AList.update ''updatedAt'' (DateObj (Some now))
       (spread [] (map (\<lambda>(k, v). (k, Json v)) reqbody))"

definition put_task ::
  "'db platform \<Rightarrow> string \<Rightarrow> (string \<times> json) list \<Rightarrow> int \<Rightarrow> 'db server \<Rightarrow> response \<times> 'db server"
where
  "put_task P ident reqbody now s =
     (let payload = put_payload reqbody now in
      if isDbConnected s then
        (case Task_findByIdAndUpdate P (db s) ident payload of
           (Inl msg, d) \<Rightarrow> ((400, Message msg), s\<lparr>db := d\<rparr>)
         | (Inr None, d) \<Rightarrow> ((404, Message ''Task not found''), s\<lparr>db := d\<rparr>)
         | (Inr (Some t), d) \<Rightarrow> ((200, TaskDoc t), s\<lparr>db := d\<rparr>))
      else
        (case findIndex (\<lambda>t. field t ''_id'' = Json (JStr ident)) (inMemoryTasks s) of
           None \<Rightarrow> ((404, Message ''Task not found''), s)
         | Some idx \<Rightarrow>
             (let merged = spread (inMemoryTasks s ! idx) payload
              in ((200, TaskDoc merged),
                  s\<lparr>inMemoryTasks := (inMemoryTasks s)[idx := merged]\<rparr>))))"

subsection \<open>DELETE /tasks/:id\<close>

definition delete_task :: "'db platform \<Rightarrow> string \<Rightarrow> 'db server \<Rightarrow> response \<times> 'db server" where
  "delete_task P ident s =
     (if isDbConnected s then
        (case Task_findByIdAndDelete P (db s) ident of
           (Inl msg, d) \<Rightarrow> ((500, Message msg), s\<lparr>db := d\<rparr>)
         | (Inr None, d) \<Rightarrow> ((404, Message ''Task not found''), s\<lparr>db := d\<rparr>)
         | (Inr (Some t), d) \<Rightarrow> ((200, Message ''Task deleted successfully''), s\<lparr>db := d\<rparr>))
      else
        (case findIndex (\<lambda>t. field t ''_id'' = Json (JStr ident)) (inMemoryTasks s) of
           None \<Rightarrow> ((404, Message ''Task not found''), s)
         | Some idx \<Rightarrow>
             ((200, Message ''Task deleted successfully''),
              s\<lparr>inMemoryTasks := splice1 idx (inMemoryTasks s)\<rparr>)))"

subsection \<open>The routes\<close>

text \<open>A request as the router sees it, together with the clock readings its handler takes.\<close>

datatype request =
    GetTasks
  | GetTask string
  | PostTask "(string \<times> json) list" int int int
  | PutTask string "(string \<times> json) list" int
  | DeleteTask string

fun handle :: "'db platform \<Rightarrow> request \<Rightarrow> 'db server \<Rightarrow> response \<times> 'db server" where
  "handle P GetTasks s = get_tasks P s"
| "handle P (GetTask ident) s = get_task P ident s"
| "handle P (PostTask reqbody t_id t_created t_updated) s =
     post_task P reqbody t_id t_created t_updated s"
| "handle P (PutTask ident reqbody now) s = put_task P ident reqbody now s"
| "handle P (DeleteTask ident) s = delete_task P ident s"

text \<open>Requests are served one after the other; the responses are collected in order. No
  handler writes \<^verbatim>\<open>readyState\<close>, so the connection state is the same for a whole sequence.\<close>

fun serve :: "'db platform \<Rightarrow> request list \<Rightarrow> 'db server \<Rightarrow> response list \<times> 'db server" where
  "serve P [] s = ([], s)"
| "serve P (r # rs) s =
     (case handle P r s of (resp, s') \<Rightarrow>
        (case serve P rs s' of (resps, s'') \<Rightarrow> (resp # resps, s'')))"

subsection \<open>Startup: \<^verbatim>\<open>connectToMongo\<close>\<close>

text \<open>What the routine does, in order: a call of \<^verbatim>\<open>mongoose.connect\<close> with its
  \<^verbatim>\<open>serverSelectionTimeoutMS\<close> option, or a \<^verbatim>\<open>setTimeout\<close> wait of so many milliseconds.\<close>

datatype event = Connect nat | Wait nat

definition maxRetries :: nat where
  "maxRetries = 3"

definition baseDelay :: nat where
  "baseDelay = 1000"

text \<open>The loop of \<^verbatim>\<open>connectToMongo\<close>. \<open>connect n\<close> tells whether the \<open>n\<close>-th call of
  \<^verbatim>\<open>mongoose.connect\<close> resolves. The result is whether a connection was made, with the
  events so far; the routine never throws.\<close>

function connect_loop :: "(nat \<Rightarrow> bool) \<Rightarrow> nat \<Rightarrow> event list \<Rightarrow> bool \<times> event list" where
  "connect_loop connect attempt tr =
     (if attempt \<le> maxRetries then
        (if connect (attempt + 1) then (True, tr @ [Connect 5000])
         else if attempt + 1 > maxRetries then (False, tr @ [Connect 5000])
         else connect_loop connect (attempt + 1)
                (tr @ [Connect 5000, Wait (baseDelay * 2 ^ (attempt + 1 - 1))]))
      else (False, tr))"
  by pat_completeness auto
termination
  by (relation "measure (\<lambda>(connect, attempt, tr). Suc maxRetries - attempt)") auto

declare connect_loop.simps [simp del]

definition connectToMongo :: "(nat \<Rightarrow> bool) \<Rightarrow> bool \<times> event list" where
  "connectToMongo connect = connect_loop connect 0 []"

text \<open>The process after startup: the fallback collection is empty, the id counter is 1, and
  the connection's \<^verbatim>\<open>readyState\<close> is 1 exactly when a connection was made.\<close>

definition startup :: "(nat \<Rightarrow> bool) \<Rightarrow> 'db \<Rightarrow> 'db server" where
  "startup connect d =
     \<lparr>readyState = (if fst (connectToMongo connect) then 1 else 0), db = d,
      inMemoryTasks = [], inMemoryIdCounter = 1\<rparr>"

definition attempts :: "event list \<Rightarrow> nat" where
  "attempts tr = length (filter (\<lambda>e. case e of Connect t \<Rightarrow> True | Wait d \<Rightarrow> False) tr)"

fun waits :: "event list \<Rightarrow> nat list" where
  "waits [] = []"
| "waits (Connect t # es) = waits es"
| "waits (Wait d # es) = d # waits es"

fun timeouts :: "event list \<Rightarrow> nat list" where
  "timeouts [] = []"
| "timeouts (Connect t # es) = t # timeouts es"
| "timeouts (Wait d # es) = timeouts es"

section \<open>Notions the properties are stated with\<close>

subsection \<open>The order a listing is to have\<close>

text \<open>The order in the words of the specification: incomplete tasks before completed ones
  and, among tasks of equal completeness, ascending by due date, a task without a due date
  counting as plus infinity. A task has a due date when its \<^verbatim>\<open>dueDate\<close> is truthy and
  denotes a time value; \<open>None\<close> stands for no due date.\<close>

definition spec_completed :: "task \<Rightarrow> bool" where
  "spec_completed t = truthy (field t ''completed'')"

definition spec_due :: "js_runtime \<Rightarrow> task \<Rightarrow> int option" where
  "spec_due R t =
     (if truthy (field t ''dueDate'') then
        (case new_Date R (field t ''dueDate'') of Throw \<Rightarrow> None | Normal tv \<Rightarrow> tv)
      else None)"

fun due_le :: "int option \<Rightarrow> int option \<Rightarrow> bool" where
  "due_le x None = True"
| "due_le None (Some b) = False"
| "due_le (Some a) (Some b) = (a \<le> b)"

definition list_order :: "js_runtime \<Rightarrow> task \<Rightarrow> task \<Rightarrow> bool" where
  "list_order R a b \<longleftrightarrow>
     (\<not> spec_completed a \<and> spec_completed b)
     \<or> (spec_completed a = spec_completed b \<and> due_le (spec_due R a) (spec_due R b))"

text \<open>A task whose due key the comparator can compute and compare: the key is not thrown
  and is not NaN.\<close>

definition keyed :: "js_runtime \<Rightarrow> task \<Rightarrow> bool" where
  "keyed R t = (case due_key R t of Throw \<Rightarrow> False | Normal k \<Rightarrow> k \<noteq> NaN)"

text \<open>The tasks a response lists.\<close>

definition listed :: "response \<Rightarrow> task list" where
  "listed r = (case snd r of TaskDocs ys \<Rightarrow> ys | TaskDoc t \<Rightarrow> [] | Message m \<Rightarrow> [])"

subsection \<open>Ids of created and stored tasks\<close>

text \<open>The id a response reports as created: that of the task in a 201 answer.\<close>

fun created_id :: "response \<Rightarrow> jsval option" where
  "created_id (st, TaskDoc t) = (if st = 201 then Some (field t ''_id'') else None)"
| "created_id (st, TaskDocs ts) = None"
| "created_id (st, Message m) = None"

fun created_ids :: "response list \<Rightarrow> jsval list" where
  "created_ids [] = []"
| "created_ids (r # rs) =
     (case created_id r of None \<Rightarrow> created_ids rs | Some i \<Rightarrow> i # created_ids rs)"

text \<open>The ids of the stored tasks, and the invariant that keeps them apart: they are pairwise
  distinct and each ends in a dash and the digits of a number below the id counter.\<close>

definition stored_ids :: "'db server \<Rightarrow> jsval list" where
  "stored_ids s = map (\<lambda>t. field t ''_id'') (inMemoryTasks s)"

definition serial_below :: "nat \<Rightarrow> jsval \<Rightarrow> bool" where
  "serial_below k v \<longleftrightarrow> (\<exists>ts n. v = Json (JStr (ts @ ''-'' @ digits n)) \<and> n < k)"

definition ids_apart :: "'db server \<Rightarrow> bool" where
  "ids_apart s \<longleftrightarrow>
     distinct (stored_ids s) \<and> list_all (serial_below (inMemoryIdCounter s)) (stored_ids s)"

subsection \<open>Time stamps along a sequence of requests\<close>

text \<open>Whether a request is an update whose body has the field \<open>k\<close>.\<close>

fun carries :: "string \<Rightarrow> request \<Rightarrow> bool" where
  "carries k (PutTask ident reqbody now) = (k \<in> fst ` set reqbody)"
| "carries k GetTasks = False"
| "carries k (GetTask ident) = False"
| "carries k (PostTask reqbody t_id t_created t_updated) = False"
| "carries k (DeleteTask ident) = False"

text \<open>A clock that does not run backwards: the readings a request takes are in order and
  not before the last reading so far.\<close>

fun clock_step :: "int \<Rightarrow> request \<Rightarrow> bool" where
  "clock_step now (PostTask reqbody t_id t_created t_updated) =
     (now \<le> t_id \<and> t_id \<le> t_created \<and> t_created \<le> t_updated)"
| "clock_step now (PutTask ident reqbody t) = (now \<le> t)"
| "clock_step now GetTasks = True"
| "clock_step now (GetTask ident) = True"
| "clock_step now (DeleteTask ident) = True"

fun clock_after :: "int \<Rightarrow> request \<Rightarrow> int" where
  "clock_after now (PostTask reqbody t_id t_created t_updated) = t_updated"
| "clock_after now (PutTask ident reqbody t) = t"
| "clock_after now GetTasks = now"
| "clock_after now (GetTask ident) = now"
| "clock_after now (DeleteTask ident) = now"

fun clock_ok :: "int \<Rightarrow> request list \<Rightarrow> bool" where
  "clock_ok now [] = True"
| "clock_ok now (r # rs) = (clock_step now r \<and> clock_ok (clock_after now r) rs)"

text \<open>The time value of a stored stamp, when the field holds a valid \<^verbatim>\<open>Date\<close>.\<close>

fun stamp :: "jsval \<Rightarrow> int option" where
  "stamp (DateObj t) = t"
| "stamp (Json j) = None"
| "stamp Undefined = None"

definition stamps_ok :: "int \<Rightarrow> task \<Rightarrow> bool" where
  "stamps_ok now t =
     (case stamp (field t ''createdAt'') of
        None \<Rightarrow> False
      | Some c \<Rightarrow>
          (case stamp (field t ''updatedAt'') of
             None \<Rightarrow> False
           | Some u \<Rightarrow> c \<le> u \<and> u \<le> now))"

text \<open>The \<^verbatim>\<open>createdAt\<close> values a sequence of requests assigns, one per creation request.\<close>

fun created_stamps :: "request list \<Rightarrow> jsval list" where
  "created_stamps [] = []"
| "created_stamps (PostTask reqbody t_id t_created t_updated # rs) =
     DateObj (Some t_created) # created_stamps rs"
| "created_stamps (r # rs) = created_stamps rs"

definition createdAts :: "'db server \<Rightarrow> jsval list" where
  "createdAts s = map (\<lambda>t. field t ''createdAt'') (inMemoryTasks s)"

section \<open>Sample platform and states\<close>

text \<open>A runtime whose parser knows two ISO instants and yields NaN on anything else (its
  string for a large number is that of \<open>10\<^sup>2\<^sup>1\<close>; no sample holds a number above
  \<open>2\<^sup>5\<^sup>3\<close>), and a durable collection that is empty and refuses to store. They serve as
  concrete inputs.\<close>

definition sample_parse :: "string \<Rightarrow> int option" where
  "sample_parse str =
     (if str = ''2099-01-01T00:00:00.000Z'' then Some 4070908800000
      else if str = ''2000-01-01T00:00:00.000Z'' then Some 946684800000
      else None)"

definition sample_runtime :: js_runtime where
  "sample_runtime =
     \<lparr>Date_parse = sample_parse,
      Number_toString_large = (\<lambda>n. ''1e+21''),
      TypeError_message = ''Cannot convert object to primitive value''\<rparr>"

definition sample_platform :: "unit platform" where
  "sample_platform =
     \<lparr>js = sample_runtime,
      Task_find_sort = (\<lambda>d. Inr []),
      Task_findById = (\<lambda>d ident. Inr None),
      Task_save = (\<lambda>d t. (Inl ''collection is read-only'', d)),
      Task_findByIdAndUpdate = (\<lambda>d ident payload. (Inr None, d)),
      Task_findByIdAndDelete = (\<lambda>d ident. (Inr None, d))\<rparr>"

definition offline_server :: "unit server" where
  "offline_server = \<lparr>readyState = 0, db = (), inMemoryTasks = [], inMemoryIdCounter = 1\<rparr>"

definition online_server :: "unit server" where
  "online_server = \<lparr>readyState = 1, db = (), inMemoryTasks = [], inMemoryIdCounter = 1\<rparr>"

text \<open>A fallback collection holding two tasks, as two creations leave it.\<close>

definition milk_task :: task where
  "milk_task =
     [(''_id'', Json (JStr ''1700000000000-1'')),
      (''text'', Json (JStr ''buy milk'')),
      (''completed'', Json (JBool False)),
      (''createdAt'', DateObj (Some 1700000000000)),
      (''updatedAt'', DateObj (Some 1700000000000)),
      (''dueDate'', DateObj (Some 4070908800000)),
      (''position'', Json JNull)]"

definition bread_task :: task where
  "bread_task =
     [(''_id'', Json (JStr ''1700000000500-2'')),
      (''text'', Json (JStr ''bread'')),
      (''completed'', Json (JBool False)),
      (''createdAt'', DateObj (Some 1700000000500)),
      (''updatedAt'', DateObj (Some 1700000000501)),
      (''dueDate'', Json JNull),
      (''position'', Json (JObj [(''x'', JNum 40), (''y'', JNum 12)]))]"

definition two_tasks :: "unit server" where
  "two_tasks =
     \<lparr>readyState = 0, db = (), inMemoryTasks = [milk_task, bread_task], inMemoryIdCounter = 3\<rparr>"

definition two_posts :: "request list" where
  "two_posts =
     [PostTask [(''text'', JStr '' buy milk ''), (''dueDate'', JStr ''2099-01-01T00:00:00.000Z'')]
        1700000000000 1700000000000 1700000000000,
      PostTask [(''text'', JStr ''bread''), (''position'', JObj [(''x'', JNum 40), (''y'', JNum 12)])]
        1700000000500 1700000000500 1700000000501]"

text \<open>Two creations, the first with a due date that does not parse.\<close>

definition unparseable_then_dated :: "request list" where
  "unparseable_then_dated =
     [PostTask [(''text'', JStr ''call mom''), (''dueDate'', JStr ''next tuesday'')]
        1700000000000 1700000000000 1700000000000,
      PostTask [(''text'', JStr ''buy milk''), (''dueDate'', JStr ''2099-01-01T00:00:00.000Z'')]
        1700000000500 1700000000500 1700000000500]"

text \<open>The same two creations, the first without a due date.\<close>

definition undated_then_dated :: "request list" where
  "undated_then_dated =
     [PostTask [(''text'', JStr ''call mom'')]
        1700000000000 1700000000000 1700000000000,
      PostTask [(''text'', JStr ''buy milk''), (''dueDate'', JStr ''2099-01-01T00:00:00.000Z'')]
        1700000000500 1700000000500 1700000000500]"

text \<open>A creation whose due date is an object with a \<^verbatim>\<open>toString\<close> property of its own.\<close>

definition toString_due :: "(string \<times> json) list" where
  "toString_due = [(''text'', JStr ''call mom''), (''dueDate'', JObj [(''toString'', JNum 1)])]"

text \<open>A durable collection as Mongoose presents it when it holds no document. The schema
  declares no \<^verbatim>\<open>_id\<close>, so documents get an \<^verbatim>\<open>ObjectId\<close>, written as 24 hexadecimal digits,
  and a query by id casts the string it is given to that type: a string that cannot be one
  makes the call throw a \<^verbatim>\<open>CastError\<close>. (A string of 12 characters is an id for older
  versions of the driver; it is taken as one here.) This part is modelled from the
  behaviour Mongoose documents, not from code of the repository.\<close>

definition is_hex_digit :: "char \<Rightarrow> bool" where
  "is_hex_digit c \<longleftrightarrow> c \<in> set ''0123456789abcdefABCDEF''"

definition is_ObjectId :: "string \<Rightarrow> bool" where
  "is_ObjectId str \<longleftrightarrow> length str = 12 \<or> (length str = 24 \<and> list_all is_hex_digit str)"

definition cast_error :: "string \<Rightarrow> string" where
  "cast_error ident =
     ''Cast to ObjectId failed for value '' @ [CHR 0x22] @ ident @ [CHR 0x22]
     @ '' (type string) at path '' @ [CHR 0x22] @ ''_id'' @ [CHR 0x22]
     @ '' for model '' @ [CHR 0x22] @ ''Task'' @ [CHR 0x22]"

definition empty_collection :: "unit platform" where
  "empty_collection =
     \<lparr>js = sample_runtime,
      Task_find_sort = (\<lambda>d. Inr []),
      Task_findById = (\<lambda>d ident. if is_ObjectId ident then Inr None else Inl (cast_error ident)),
      Task_save = (\<lambda>d t. (Inl ''collection is read-only'', d)),
      Task_findByIdAndUpdate =
        (\<lambda>d ident payload. if is_ObjectId ident then (Inr None, d) else (Inl (cast_error ident), d)),
      Task_findByIdAndDelete =
        (\<lambda>d ident. if is_ObjectId ident then (Inr None, d) else (Inl (cast_error ident), d))\<rparr>"

text \<open>Two creations, an update that gives the second task the id of the first, the deletion
  of that id, and then a read of it and a listing.\<close>

definition duplicate_id_session :: "request list" where
  "duplicate_id_session =
     two_posts @
     [PutTask ''1700000000500-2'' [(''_id'', JStr ''1700000000000-1'')] 1700000000900,
      DeleteTask ''1700000000000-1'',
      GetTask ''1700000000000-1'',
      GetTasks]"

text \<open>Two creations, the completion of the first task and the deletion of the second.\<close>

definition complete_then_delete :: "request list" where
  "complete_then_delete =
     two_posts @
     [PutTask ''1700000000000-1'' [(''completed'', JBool True)] 1700000000900,
      DeleteTask ''1700000000500-2'']"

section \<open>Properties\<close>

subsection \<open>Auxiliary facts\<close>

lemma trim_all_whitespace: "\<forall>c\<in>set str. is_js_whitespace c \<Longrightarrow> trim str = []"
  by (auto simp: trim_def dest: set_dropWhileD)

lemma findIndex_None: "findIndex Q xs = None \<longleftrightarrow> (\<forall>x\<in>set xs. \<not> Q x)"
  by (induction xs) auto

lemma findIndex_Some:
  "findIndex Q xs = Some i \<Longrightarrow> i < length xs \<and> Q (xs ! i) \<and> (\<forall>j<i. \<not> Q (xs ! j))"
proof (induction xs arbitrary: i)
  case Nil
  then show ?case by simp
next
  case (Cons x xs)
  show ?case
  proof (cases "Q x")
    case True
    with Cons.prems show ?thesis by simp
  next
    case False
    with Cons.prems obtain k where k: "findIndex Q xs = Some k" "i = Suc k"
      by auto
    from Cons.IH [OF k(1)] False k(2) show ?thesis
      by (auto simp: less_Suc_eq_0_disj)
  qed
qed

lemma findIndex_least:
  "i < length xs \<Longrightarrow> Q (xs ! i) \<Longrightarrow> \<forall>j<i. \<not> Q (xs ! j) \<Longrightarrow> findIndex Q xs = Some i"
proof (induction xs arbitrary: i)
  case Nil
  then show ?case by simp
next
  case (Cons x xs)
  show ?case
  proof (cases i)
    case 0
    with Cons.prems show ?thesis by simp
  next
    case (Suc k)
    with Cons.prems have x: "\<not> Q x" by auto
    from Suc Cons.prems have "k < length xs" and "Q (xs ! k)" and "\<forall>j<k. \<not> Q (xs ! j)"
      by auto
    then have "findIndex Q xs = Some k" by (rule Cons.IH)
    with x Suc show ?thesis by simp
  qed
qed

lemmas server_eval =
  offline_server_def online_server_def sample_platform_def sample_runtime_def sample_parse_def
  Number_toString_def
  two_tasks_def milk_task_def bread_task_def two_posts_def
  get_tasks_def get_task_def post_task_def put_task_def delete_task_def put_payload_def
  body_field_def to_val_def String_field_def trim_def is_js_whitespace_def
  due_of_body_def nullish_null_def isDbConnected_def string_of_int_def
  digits.simps digit_char_def field_def spread_def splice1_def Array_sort_def
  task_compare_def due_key_def getTime_def TimeClip_def Let_def
  empty_collection_def is_ObjectId_def

lemma get_tasks_state: "snd (get_tasks P s) = s"
  by (simp add: get_tasks_def split: sum.splits completion.splits)

text \<open>The three ways a creation can go on the fallback path: refused with the state as it
  was; failed in the due date, with the id counter raised and nothing stored; or stored.\<close>

lemma post_task_fallback:
  assumes "\<not> isDbConnected s"
  obtains (refused) m where "post_task P b t_id t_created t_updated s = ((400, Message m), s)"
  | (thrown) "post_task P b t_id t_created t_updated s
      = ((400, Message (TypeError_message (js P))),
         s\<lparr>inMemoryIdCounter := inMemoryIdCounter s + 1\<rparr>)"
  | (stored) title due pos where "post_task P b t_id t_created t_updated s
      = ((201, TaskDoc [(''_id'', Json (JStr (string_of_int t_id @ ''-'' @ digits (inMemoryIdCounter s)))),
                        (''text'', title), (''completed'', Json (JBool False)),
                        (''createdAt'', DateObj (Some t_created)), (''updatedAt'', DateObj (Some t_updated)),
                        (''dueDate'', due), (''position'', pos)]),
         s\<lparr>inMemoryTasks := inMemoryTasks s @
              [[(''_id'', Json (JStr (string_of_int t_id @ ''-'' @ digits (inMemoryIdCounter s)))),
                (''text'', title), (''completed'', Json (JBool False)),
                (''createdAt'', DateObj (Some t_created)), (''updatedAt'', DateObj (Some t_updated)),
                (''dueDate'', due), (''position'', pos)]],
           inMemoryIdCounter := inMemoryIdCounter s + 1\<rparr>)"
proof (cases "truthy (to_val (body_field b ''text''))")
  case False
  then show ?thesis
    using refused [of "''Task text is required.''"] by (simp add: post_task_def)
next
  case True
  show ?thesis
  proof (cases "String_field (js P) (body_field b ''text'')")
    case Throw
    with True show ?thesis
      using refused [of "TypeError_message (js P)"] by (simp add: post_task_def)
  next
    case (Normal str)
    show ?thesis
    proof (cases "trim str = []")
      case blank: True
      with True Normal show ?thesis
        using refused [of "''Task text is required.''"] by (simp add: post_task_def)
    next
      case False
      show ?thesis
      proof (cases "due_of_body (js P) (body_field b ''dueDate'')")
        case Throw
        with True Normal False assms show ?thesis
          using thrown by (simp add: post_task_def)
      next
        case due: (Normal d)
        with True Normal False assms show ?thesis
          using stored [of "Json (JStr (trim str))" d "nullish_null (body_field b ''position'')"]
          by (simp add: post_task_def Let_def)
      qed
    qed
  qed
qed

lemma two_tasks_reachable: "snd (serve sample_platform two_posts offline_server) = two_tasks"
  by (simp add: server_eval)

subsection \<open>Creation rejects a missing or blank text\<close>

text \<open>
  Claim C4. A \<^verbatim>\<open>POST /tasks\<close> whose \<^verbatim>\<open>text\<close> is absent, \<^verbatim>\<open>null\<close>, empty or made of
  whitespace only is answered with status 400 and the server state is left as it was, whatever
  the connection state: the check comes before the handler chooses a backend, so neither the
  durable collection nor the fallback collection is touched. The message the handler sends
  is \<^verbatim>\<open>Task text is required.\<close>
\<close>

theorem post_task_text_required:
  assumes "body_field reqbody ''text'' = None
           \<or> body_field reqbody ''text'' = Some JNull
           \<or> (\<exists>str. body_field reqbody ''text'' = Some (JStr str)
                  \<and> (\<forall>c\<in>set str. is_js_whitespace c))"
  shows "post_task P reqbody t_id t_created t_updated s
           = ((400, Message ''Task text is required.''), s)"
  using assms
  by (auto simp: post_task_def to_val_def String_field_def trim_all_whitespace Let_def)

theorem post_task_text_required_witness:
  "post_task sample_platform
       [(''dueDate'', JStr ''2099-01-01T00:00:00.000Z''), (''text'', JStr [CHR 0x20, CHR 0x09])]
       1700000000000 1700000000000 1700000000001 online_server
     = ((400, Message ''Task text is required.''), online_server)
   \<and> post_task sample_platform [] 1700000000000 1700000000000 1700000000001 offline_server
     = ((400, Message ''Task text is required.''), offline_server)"
  using post_task_text_required [where P = sample_platform and s = online_server
          and reqbody = "[(''dueDate'', JStr ''2099-01-01T00:00:00.000Z''),
                          (''text'', JStr [CHR 0x20, CHR 0x09])]"]
        post_task_text_required [where P = sample_platform and s = offline_server
          and reqbody = "[]"]
  by (simp add: body_field_def is_js_whitespace_def)

subsection \<open>Updating an id that is not stored\<close>

text \<open>
  Claim C7, as stated: for every id the active backend does not hold, an update is answered
  with NotFound. On the durable path the handler hands the id to \<^verbatim>\<open>findByIdAndUpdate\<close> and
  answers 404 only when the call resolves with no document; whatever the call throws, the
  \<^verbatim>\<open>catch\<close> answers with 400. Mongoose throws when the id is not an \<^verbatim>\<open>ObjectId\<close>, as is the
  case for every id the fallback path issues. Here the durable collection is empty, so it
  holds no id at all, and the update of a fallback id is answered with 400.
\<close>

theorem put_task_uncastable_id_counterexample:
  "Task_find_sort empty_collection (db online_server) = Inr []
   \<and> fst (fst (put_task empty_collection ''1700000000000-1'' [(''completed'', JBool True)]
        1700000000900 online_server)) = 400
   \<and> (400 :: nat) \<noteq> 404"
  by (simp add: server_eval)

text \<open>
  Claim C7, amended. On the fallback path, a \<^verbatim>\<open>PUT /tasks/:id\<close> for an id that no stored
  task carries is answered with status 404 and leaves the collection, and the rest of the
  server state, exactly as it was.
\<close>

theorem put_task_absent_id:
  assumes "\<not> isDbConnected s"
    and "\<forall>t\<in>set (inMemoryTasks s). field t ''_id'' \<noteq> Json (JStr ident)"
  shows "put_task P ident reqbody now s = ((404, Message ''Task not found''), s)"
proof -
  from assms(2)
  have "findIndex (\<lambda>t. field t ''_id'' = Json (JStr ident)) (inMemoryTasks s) = None"
    by (simp add: findIndex_None)
  with assms(1) show ?thesis
    by (simp add: put_task_def)
qed

theorem put_task_absent_id_witness:
  "put_task sample_platform ''1700000000000-9'' [(''completed'', JBool True)] 1700000000905
       two_tasks
     = ((404, Message ''Task not found''), two_tasks)
   \<and> put_task sample_platform ''1700000000000-1'' [(''completed'', JBool True)] 1700000000905
       offline_server
     = ((404, Message ''Task not found''), offline_server)"
  using put_task_absent_id [where P = sample_platform and s = two_tasks
          and ident = "''1700000000000-9''" and reqbody = "[(''completed'', JBool True)]"
          and now = 1700000000905]
        put_task_absent_id [where P = sample_platform and s = offline_server
          and ident = "''1700000000000-1''" and reqbody = "[(''completed'', JBool True)]"
          and now = 1700000000905]
  by (simp add: isDbConnected_def offline_server_def two_tasks_def milk_task_def bread_task_def
        field_def)

lemma mset_splice1:
  "idx < length xs \<Longrightarrow> mset xs = add_mset (xs ! idx) (mset (splice1 idx xs))"
proof -
  assume a: "idx < length xs"
  then have "xs = take idx xs @ xs ! idx # drop (Suc idx) xs"
    by (rule id_take_nth_drop)
  then have "mset xs = mset (take idx xs @ xs ! idx # drop (Suc idx) xs)"
    by simp
  then show ?thesis by (simp add: splice1_def)
qed

subsection \<open>Listing does not write; deletion removes one record\<close>

text \<open>
  Claim C10. \<^verbatim>\<open>GET /tasks\<close> leaves the server state as it was: the handler sorts a copy
  of the fallback collection. On the fallback path \<^verbatim>\<open>DELETE /tasks/:id\<close> removes the first
  stored record that carries the id: when the record at \<open>idx\<close> carries it and no earlier
  one does, the collection afterwards is the collection before without position \<open>idx\<close>,
  every other record in place and unchanged, and the rest of the state is as it was. When no
  stored record carries the id, the answer is 404 and nothing changes.
\<close>

theorem list_read_only_delete_exact:
  "snd (get_tasks P s) = s
   \<and> (\<not> isDbConnected s
        \<and> idx < length (inMemoryTasks s)
        \<and> field (inMemoryTasks s ! idx) ''_id'' = Json (JStr ident)
        \<and> (\<forall>j<idx. field (inMemoryTasks s ! j) ''_id'' \<noteq> Json (JStr ident))
      \<longrightarrow> delete_task P ident s
              = ((200, Message ''Task deleted successfully''),
                 s\<lparr>inMemoryTasks := take idx (inMemoryTasks s) @ drop (Suc idx) (inMemoryTasks s)\<rparr>)
          \<and> mset (inMemoryTasks s)
              = add_mset (inMemoryTasks s ! idx) (mset (inMemoryTasks (snd (delete_task P ident s)))))
   \<and> (\<not> isDbConnected s
        \<and> (\<forall>t\<in>set (inMemoryTasks s). field t ''_id'' \<noteq> Json (JStr ident))
      \<longrightarrow> delete_task P ident s = ((404, Message ''Task not found''), s))"
proof (intro conjI impI)
  show "snd (get_tasks P s) = s"
    by (simp add: get_tasks_def split: sum.splits completion.splits)
next
  assume a: "\<not> isDbConnected s
        \<and> idx < length (inMemoryTasks s)
        \<and> field (inMemoryTasks s ! idx) ''_id'' = Json (JStr ident)
        \<and> (\<forall>j<idx. field (inMemoryTasks s ! j) ''_id'' \<noteq> Json (JStr ident))"
  then have i: "idx < length (inMemoryTasks s)" by simp
  from a have f: "findIndex (\<lambda>t. field t ''_id'' = Json (JStr ident)) (inMemoryTasks s) = Some idx"
    by (simp add: findIndex_least)
  with a show d: "delete_task P ident s
              = ((200, Message ''Task deleted successfully''),
                 s\<lparr>inMemoryTasks := take idx (inMemoryTasks s) @ drop (Suc idx) (inMemoryTasks s)\<rparr>)"
    by (simp add: delete_task_def splice1_def)
  from mset_splice1 [OF i] show "mset (inMemoryTasks s)
      = add_mset (inMemoryTasks s ! idx) (mset (inMemoryTasks (snd (delete_task P ident s))))"
    by (simp add: d splice1_def)
next
  assume a: "\<not> isDbConnected s
        \<and> (\<forall>t\<in>set (inMemoryTasks s). field t ''_id'' \<noteq> Json (JStr ident))"
  then have "findIndex (\<lambda>t. field t ''_id'' = Json (JStr ident)) (inMemoryTasks s) = None"
    by (simp add: findIndex_None)
  with a show "delete_task P ident s = ((404, Message ''Task not found''), s)"
    by (simp add: delete_task_def)
qed

theorem list_read_only_delete_exact_witness:
  "snd (get_tasks sample_platform two_tasks) = two_tasks
   \<and> delete_task sample_platform ''1700000000500-2'' two_tasks
       = ((200, Message ''Task deleted successfully''), two_tasks\<lparr>inMemoryTasks := [milk_task]\<rparr>)
   \<and> delete_task sample_platform ''1700000000000-1'' two_tasks
       = ((200, Message ''Task deleted successfully''), two_tasks\<lparr>inMemoryTasks := [bread_task]\<rparr>)
   \<and> delete_task sample_platform ''1700000000000-9'' two_tasks
       = ((404, Message ''Task not found''), two_tasks)"
  using list_read_only_delete_exact [where P = sample_platform and s = two_tasks
          and ident = "''1700000000500-2''" and idx = 1]
        list_read_only_delete_exact [where P = sample_platform and s = two_tasks
          and ident = "''1700000000000-1''" and idx = 0]
        list_read_only_delete_exact [where P = sample_platform and s = two_tasks
          and ident = "''1700000000000-9''"]
  by (simp add: two_tasks_def milk_task_def bread_task_def isDbConnected_def field_def)

subsection \<open>Updating the text on the fallback path\<close>

text \<open>
  Claim C5. The claim asks that an update whose \<^verbatim>\<open>text\<close> is blank be refused and the record
  kept. The durable path asks Mongoose to run the schema's validators
  (\<^verbatim>\<open>runValidators: true\<close>, with \<^verbatim>\<open>text\<close> required and trimmed), and creation checks the text
  itself; the fallback path of \<^verbatim>\<open>PUT /tasks/:id\<close> merges the payload without any check. Here
  the stored task \<open>milk_task\<close> is sent a text of three spaces: the answer is 200 and the
  stored text becomes the three spaces, which trim to the empty string.
\<close>

theorem put_task_blank_text_accepted:
  "fst (put_task sample_platform ''1700000000000-1'' [(''text'', JStr ''   '')] 1700000000900 two_tasks)
     = (200, TaskDoc (milk_task [1 := (''text'', Json (JStr ''   '')),
                                 4 := (''updatedAt'', DateObj (Some 1700000000900))]))
   \<and> field (inMemoryTasks (snd (put_task sample_platform ''1700000000000-1''
              [(''text'', JStr ''   '')] 1700000000900 two_tasks)) ! 0) ''text'' = Json (JStr ''   '')
   \<and> trim ''   '' = []"
  by (simp add: server_eval)

subsection \<open>An unparseable due date on creation\<close>

text \<open>
  Claim C2, as stated: a creation whose \<^verbatim>\<open>dueDate\<close> does not parse succeeds and stores
  \<^verbatim>\<open>null\<close>. Two inputs show otherwise. After a creation with the due date
  \<^verbatim>\<open>next tuesday\<close> the fallback collection holds the \<^verbatim>\<open>Date\<close> object that
  \<^verbatim>\<open>new Date(dueDate)\<close> returned, an Invalid Date. A response writes it as \<^verbatim>\<open>null\<close>, but it is
  not the \<^verbatim>\<open>null\<close> a creation without due date stores: the listing puts the task before a
  task due in 2099, where the task created without due date comes after it. And a creation
  whose due date is an object with a \<^verbatim>\<open>toString\<close> property of its own does not succeed: the
  conversion throws and the answer is 400.
\<close>

theorem post_task_unparseable_due_counterexample:
  "map (\<lambda>t. (field t ''text'', field t ''dueDate''))
       (inMemoryTasks (snd (serve sample_platform unparseable_then_dated offline_server)))
     = [(Json (JStr ''call mom''), DateObj None),
        (Json (JStr ''buy milk''), DateObj (Some 4070908800000))]
   \<and> map (\<lambda>t. field t ''text'')
       (listed (fst (get_tasks sample_platform
          (snd (serve sample_platform unparseable_then_dated offline_server)))))
     = [Json (JStr ''call mom''), Json (JStr ''buy milk'')]
   \<and> map (\<lambda>t. (field t ''text'', field t ''dueDate''))
       (inMemoryTasks (snd (serve sample_platform undated_then_dated offline_server)))
     = [(Json (JStr ''call mom''), Json JNull),
        (Json (JStr ''buy milk''), DateObj (Some 4070908800000))]
   \<and> map (\<lambda>t. field t ''text'')
       (listed (fst (get_tasks sample_platform
          (snd (serve sample_platform undated_then_dated offline_server)))))
     = [Json (JStr ''buy milk''), Json (JStr ''call mom'')]
   \<and> post_task sample_platform toString_due 1700000000000 1700000000000 1700000000000
        offline_server
     = ((400, Message ''Cannot convert object to primitive value''),
        offline_server\<lparr>inMemoryIdCounter := 2\<rparr>)
   \<and> post_task sample_platform toString_due 1700000000000 1700000000000 1700000000000
        online_server
     = ((400, Message ''Cannot convert object to primitive value''), online_server)"
  by (simp add: server_eval unparseable_then_dated_def undated_then_dated_def toString_due_def
        listed_def)

text \<open>
  Claim C2, amended. A creation with an acceptable text whose \<^verbatim>\<open>dueDate\<close> is truthy and
  yields no time value goes one of two ways. When \<^verbatim>\<open>new Date(dueDate)\<close> returns, the fallback
  path answers 201 and appends the new record, whose \<^verbatim>\<open>dueDate\<close> is the Invalid Date object:
  a response writes it as \<^verbatim>\<open>null\<close>, the store does not hold \<^verbatim>\<open>null\<close>. When the conversion
  throws, the answer is 400 with the error's message on either path and no record is stored
  in either collection.
\<close>

theorem post_task_unparseable_due:
  "(\<not> isDbConnected s
      \<and> truthy (to_val (body_field reqbody ''text''))
      \<and> String_field (js P) (body_field reqbody ''text'') = Normal str
      \<and> trim str \<noteq> []
      \<and> body_field reqbody ''dueDate'' = Some d
      \<and> json_truthy d
      \<and> new_Date (js P) (Json d) = Normal None
    \<longrightarrow> (\<exists>t. post_task P reqbody t_id t_created t_updated s
               = ((201, TaskDoc t),
                  s\<lparr>inMemoryTasks := inMemoryTasks s @ [t],
                    inMemoryIdCounter := inMemoryIdCounter s + 1\<rparr>)
             \<and> field t ''dueDate'' = DateObj None
             \<and> field t ''dueDate'' \<noteq> Json JNull
             \<and> toJSON_field toISOString (field t ''dueDate'') = Some JNull))
   \<and> (truthy (to_val (body_field reqbody ''text''))
      \<and> String_field (js P) (body_field reqbody ''text'') = Normal str
      \<and> trim str \<noteq> []
      \<and> body_field reqbody ''dueDate'' = Some d
      \<and> json_truthy d
      \<and> new_Date (js P) (Json d) = Throw
    \<longrightarrow> fst (post_task P reqbody t_id t_created t_updated s)
            = (400, Message (TypeError_message (js P)))
        \<and> inMemoryTasks (snd (post_task P reqbody t_id t_created t_updated s)) = inMemoryTasks s
        \<and> db (snd (post_task P reqbody t_id t_created t_updated s)) = db s)"
  by (simp add: post_task_def Let_def due_of_body_def to_val_def field_def toJSON_field_def)

theorem post_task_unparseable_due_witness:
  "(\<exists>t. post_task sample_platform [(''text'', JStr ''call mom''), (''dueDate'', JStr ''next tuesday'')]
          1700000000900 1700000000900 1700000000900 offline_server
        = ((201, TaskDoc t), offline_server\<lparr>inMemoryTasks := [t], inMemoryIdCounter := 2\<rparr>)
      \<and> field t ''dueDate'' = DateObj None
      \<and> field t ''dueDate'' \<noteq> Json JNull
      \<and> toJSON_field string_of_int (field t ''dueDate'') = Some JNull)
   \<and> fst (post_task sample_platform toString_due 1700000000900 1700000000900 1700000000900
        online_server)
       = (400, Message ''Cannot convert object to primitive value'')
   \<and> inMemoryTasks (snd (post_task sample_platform toString_due 1700000000900 1700000000900
        1700000000900 offline_server)) = []"
  using post_task_unparseable_due [where P = sample_platform and s = offline_server
      and reqbody = "[(''text'', JStr ''call mom''), (''dueDate'', JStr ''next tuesday'')]"
      and str = "''call mom''"
      and d = "JStr ''next tuesday''" and t_id = 1700000000900 and t_created = 1700000000900
      and t_updated = 1700000000900 and toISOString = string_of_int]
    post_task_unparseable_due [where P = sample_platform and s = online_server
      and reqbody = toString_due and str = "''call mom''"
      and d = "JObj [(''toString'', JNum 1)]" and t_id = 1700000000900
      and t_created = 1700000000900 and t_updated = 1700000000900]
    post_task_unparseable_due [where P = sample_platform and s = offline_server
      and reqbody = toString_due and str = "''call mom''"
      and d = "JObj [(''toString'', JNum 1)]" and t_id = 1700000000900
      and t_created = 1700000000900 and t_updated = 1700000000900]
  by (simp add: offline_server_def online_server_def sample_platform_def sample_runtime_def
        sample_parse_def isDbConnected_def toString_due_def
        body_field_def to_val_def String_field_def trim_def is_js_whitespace_def numeral_2_eq_2)

subsection \<open>Startup connectivity\<close>

text \<open>The routine queries at most the first four connection outcomes; its result and its
  events are determined by them.\<close>

lemma connectToMongo_cases:
  "connectToMongo c =
     (if c 1 then (True, [Connect 5000])
      else if c 2 then (True, [Connect 5000, Wait 1000, Connect 5000])
      else if c 3 then (True, [Connect 5000, Wait 1000, Connect 5000, Wait 2000, Connect 5000])
      else if c 4 then
        (True, [Connect 5000, Wait 1000, Connect 5000, Wait 2000, Connect 5000, Wait 4000,
                Connect 5000])
      else
        (False, [Connect 5000, Wait 1000, Connect 5000, Wait 2000, Connect 5000, Wait 4000,
                 Connect 5000]))"
proof -
  have step: "connect_loop c n tr =
      (if n \<le> 3 then
         (if c m then (True, tr @ [Connect 5000])
          else if m > 3 then (False, tr @ [Connect 5000])
          else connect_loop c m (tr @ [Connect 5000, Wait (1000 * 2 ^ n)]))
       else (False, tr))" if "m = n + 1" for n m tr
    using that by (subst connect_loop.simps) (simp add: maxRetries_def baseDelay_def)
  have l3: "connect_loop c 3 tr =
      (if c 4 then (True, tr @ [Connect 5000]) else (False, tr @ [Connect 5000]))" for tr
    using step [of 4 3 tr] by simp
  have l2: "connect_loop c 2 tr =
      (if c 3 then (True, tr @ [Connect 5000])
       else connect_loop c 3 (tr @ [Connect 5000, Wait 4000]))" for tr
    using step [of 3 2 tr] by simp
  have l1: "connect_loop c (Suc 0) tr =
      (if c 2 then (True, tr @ [Connect 5000])
       else connect_loop c 2 (tr @ [Connect 5000, Wait 2000]))" for tr
    using step [of 2 1 tr] by simp
  have l0: "connect_loop c 0 tr =
      (if c (Suc 0) then (True, tr @ [Connect 5000])
       else connect_loop c (Suc 0) (tr @ [Connect 5000, Wait 1000]))" for tr
    using step [of 1 0 tr] by simp
  show ?thesis
    by (simp add: connectToMongo_def l0 l1 l2 l3)
qed

text \<open>
  Claim C3, as stated: at most 3 connection attempts. When every attempt fails the loop
  makes four: the attempt counter is raised before each call and the loop gives up only
  once it exceeds \<^verbatim>\<open>maxRetries = 3\<close>, so the first attempt is followed by three retries,
  after waits of 1000, 2000 and 4000 milliseconds.
\<close>

theorem connectToMongo_four_attempts_counterexample:
  "connectToMongo (\<lambda>n. False)
     = (False, [Connect 5000, Wait 1000, Connect 5000, Wait 2000, Connect 5000, Wait 4000,
                Connect 5000])
   \<and> attempts (snd (connectToMongo (\<lambda>n. False))) = 4"
  by (simp add: connectToMongo_cases attempts_def)

text \<open>
  Claim C3, amended. The routine makes at least one and at most 4 connection attempts (a
  first attempt and up to 3 retries); the waits between consecutive attempts are 1000, 2000
  and 4000 milliseconds, in this order; every attempt is made with
  \<^verbatim>\<open>serverSelectionTimeoutMS\<close> 5000; a connection is made exactly when one of the four
  attempts resolves. When all four fail the routine returns normally, the server is not
  connected and goes on serving from the fallback collection.
\<close>

theorem connectToMongo_bounded:
  "1 \<le> attempts (snd (connectToMongo c))
   \<and> attempts (snd (connectToMongo c)) \<le> 4
   \<and> waits (snd (connectToMongo c)) = take (attempts (snd (connectToMongo c)) - 1) [1000, 2000, 4000]
   \<and> timeouts (snd (connectToMongo c)) = replicate (attempts (snd (connectToMongo c))) 5000
   \<and> (fst (connectToMongo c) \<longleftrightarrow> c 1 \<or> c 2 \<or> c 3 \<or> c 4)
   \<and> (\<not> fst (connectToMongo c) \<longrightarrow>
        attempts (snd (connectToMongo c)) = 4
        \<and> \<not> isDbConnected (startup c d)
        \<and> get_tasks P (startup c d) = ((200, TaskDocs []), startup c d))"
  by (simp add: connectToMongo_cases attempts_def startup_def isDbConnected_def get_tasks_def
        Array_sort_def)


theorem connectToMongo_bounded_witness:
  "attempts (snd (connectToMongo (\<lambda>n. False))) = 4
   \<and> waits (snd (connectToMongo (\<lambda>n. False))) = [1000, 2000, 4000]
   \<and> timeouts (snd (connectToMongo (\<lambda>n. False))) = [5000, 5000, 5000, 5000]
   \<and> \<not> isDbConnected (startup (\<lambda>n. False) ())
   \<and> get_tasks sample_platform (startup (\<lambda>n. False) ())
       = ((200, TaskDocs []), startup (\<lambda>n. False) ())
   \<and> connectToMongo (\<lambda>n. n = 2) = (True, [Connect 5000, Wait 1000, Connect 5000])"
  using connectToMongo_bounded [of "\<lambda>n. False" "()" sample_platform]
  by (simp add: connectToMongo_cases attempts_def)

subsection \<open>The order of a listing\<close>

text \<open>The order of the specification is a total preorder, and on tasks whose due key is
  computed and is not NaN the comparator of the handler decides it: there the sort returns
  the stored tasks in that order.\<close>

lemma due_le_total: "due_le x y \<or> due_le y x"
  by (cases x; cases y) auto

lemma due_le_trans: "due_le x y \<Longrightarrow> due_le y z \<Longrightarrow> due_le x z"
  by (cases x; cases y; cases z) auto

lemma list_order_trans:
  "list_order R a b \<Longrightarrow> list_order R b c \<Longrightarrow> list_order R a c"
  unfolding list_order_def using due_le_trans by blast

lemma due_key_spec_due:
  "keyed R t \<Longrightarrow>
     due_key R t = Normal (case spec_due R t of None \<Rightarrow> PosInf | Some n \<Rightarrow> Fin n)"
  by (auto simp: keyed_def due_key_def spec_due_def getTime_def
           split: option.splits completion.splits if_splits)

lemma compare_keyed:
  assumes "keyed R a" and "keyed R b"
  shows "task_compare R a b =
     Normal (if spec_completed a \<noteq> spec_completed b
             then (if spec_completed a then Fin 1 else Fin (- 1))
             else js_minus (case spec_due R a of None \<Rightarrow> PosInf | Some n \<Rightarrow> Fin n)
                           (case spec_due R b of None \<Rightarrow> PosInf | Some n \<Rightarrow> Fin n))"
  by (simp add: task_compare_def spec_completed_def due_key_spec_due [OF assms(1)]
        due_key_spec_due [OF assms(2)])

lemma compare_negative:
  assumes "keyed R a" and "keyed R b"
    and "task_compare R a b = Normal v" and "js_negative v"
  shows "list_order R a b"
proof (cases "spec_completed a = spec_completed b")
  case True
  with assms(3,4) compare_keyed [OF assms(1,2)]
  have "due_le (spec_due R a) (spec_due R b)"
    by (cases "spec_due R a"; cases "spec_due R b") auto
  with True show ?thesis by (simp add: list_order_def)
next
  case False
  with assms(3,4) compare_keyed [OF assms(1,2)] show ?thesis
    by (auto simp: list_order_def split: if_splits)
qed

lemma compare_not_negative:
  assumes "keyed R a" and "keyed R b"
    and "task_compare R a b = Normal v" and "\<not> js_negative v"
  shows "list_order R b a"
proof (cases "spec_completed a = spec_completed b")
  case True
  with assms(3,4) compare_keyed [OF assms(1,2)]
  have "due_le (spec_due R b) (spec_due R a)"
    by (cases "spec_due R a"; cases "spec_due R b") auto
  with True show ?thesis by (simp add: list_order_def)
next
  case False
  with assms(3,4) compare_keyed [OF assms(1,2)] show ?thesis
    by (auto simp: list_order_def split: if_splits)
qed

lemma mset_insert_by: "insert_by cmp x ys = Normal zs \<Longrightarrow> mset zs = add_mset x (mset ys)"
  by (induction ys arbitrary: zs) (auto split: completion.splits if_splits)

lemma mset_sort_into: "sort_into cmp acc xs = Normal zs \<Longrightarrow> mset zs = mset acc + mset xs"
proof (induction xs arbitrary: acc zs)
  case Nil
  then show ?case by simp
next
  case (Cons x xs)
  from Cons.prems obtain acc' where i: "insert_by cmp x acc = Normal acc'"
    and r: "sort_into cmp acc' xs = Normal zs"
    by (auto split: completion.splits)
  from Cons.IH [OF r] mset_insert_by [OF i] show ?case by simp
qed

lemma sorted_insert_by:
  assumes "sorted_wrt (list_order R) ys"
    and "keyed R x"
    and "\<forall>y\<in>set ys. keyed R y"
  shows "\<exists>zs. insert_by (task_compare R) x ys = Normal zs \<and> sorted_wrt (list_order R) zs"
  using assms
proof (induction ys)
  case Nil
  then show ?case by simp
next
  case (Cons y ys)
  from Cons.prems have ky: "keyed R y" by simp
  from compare_keyed [OF Cons.prems(2) ky] obtain v
    where v: "task_compare R x y = Normal v"
    by blast
  show ?case
  proof (cases "js_negative v")
    case True
    from Cons.prems(2) ky v True have xy: "list_order R x y"
      by (rule compare_negative)
    with Cons.prems have "\<forall>z\<in>set ys. list_order R x z"
      by (auto intro: list_order_trans)
    with True xy v Cons.prems show ?thesis by simp
  next
    case False
    from Cons.prems(2) ky v False have yx: "list_order R y x"
      by (rule compare_not_negative)
    from Cons.prems Cons.IH obtain zs
      where zs: "insert_by (task_compare R) x ys = Normal zs"
        and so: "sorted_wrt (list_order R) zs"
      by auto
    from mset_insert_by [OF zs] have "set zs = insert x (set ys)"
      by (metis set_mset_add_mset_insert set_mset_mset)
    with False yx v zs so Cons.prems show ?thesis by simp
  qed
qed

lemma sorted_sort_into:
  assumes "sorted_wrt (list_order R) acc"
    and "\<forall>y\<in>set acc. keyed R y"
    and "\<forall>y\<in>set xs. keyed R y"
  shows "\<exists>zs. sort_into (task_compare R) acc xs = Normal zs \<and> sorted_wrt (list_order R) zs"
  using assms
proof (induction xs arbitrary: acc)
  case Nil
  then show ?case by simp
next
  case (Cons x xs)
  from Cons.prems have "keyed R x" by simp
  with Cons.prems(1) obtain acc'
    where i: "insert_by (task_compare R) x acc = Normal acc'"
      and so: "sorted_wrt (list_order R) acc'"
    using Cons.prems(2) sorted_insert_by by blast
  from mset_insert_by [OF i] have "set acc' = insert x (set acc)"
    by (metis set_mset_add_mset_insert set_mset_mset)
  with Cons.prems have "\<forall>y\<in>set acc'. keyed R y" by simp
  with so Cons.prems(3) have "\<exists>zs. sort_into (task_compare R) acc' xs = Normal zs
      \<and> sorted_wrt (list_order R) zs"
    by (intro Cons.IH) simp_all
  with i show ?case by simp
qed

lemma get_tasks_fallback_sorted:
  assumes "\<not> isDbConnected s"
    and "\<forall>t\<in>set (inMemoryTasks s). keyed (js P) t"
  shows "fst (get_tasks P s) = (200, TaskDocs (listed (fst (get_tasks P s))))
         \<and> mset (listed (fst (get_tasks P s))) = mset (inMemoryTasks s)
         \<and> sorted_wrt (list_order (js P)) (listed (fst (get_tasks P s)))"
proof -
  from sorted_sort_into [of "js P" "[]" "inMemoryTasks s"] assms(2) obtain zs
    where zs: "Array_sort (task_compare (js P)) (inMemoryTasks s) = Normal zs"
      and so: "sorted_wrt (list_order (js P)) zs"
    by (auto simp: Array_sort_def)
  from zs have "mset zs = mset (inMemoryTasks s)"
    by (simp add: Array_sort_def mset_sort_into)
  with zs so assms(1) show ?thesis
    by (simp add: get_tasks_def listed_def)
qed

text \<open>
  Claim C1. The claim asks that the listing put incomplete tasks before completed ones
  and, within each group, ascend by due date with the tasks without due date last. The
  comparator of the fallback path is written for exactly this order (a missing due date
  counts as \<^verbatim>\<open>Infinity\<close>), and yields it whenever every due key is a number, as shown above.
  It misses the stored Invalid Date. After a creation with the due date \<^verbatim>\<open>next tuesday\<close> and
  a creation due in 2099, the first record holds an Invalid Date, which a response writes as
  \<^verbatim>\<open>null\<close>. Its key is NaN, every comparison with it gives NaN, which the sort reads as
  "equal", and the two tasks stay in insertion order: the task that shows no due date is
  listed first, before the task due in 2099.
\<close>

theorem get_tasks_invalid_date_listed_first:
  "fst (fst (get_tasks sample_platform (snd (serve sample_platform unparseable_then_dated offline_server)))) = 200
   \<and> map (\<lambda>t. (field t ''text'', field t ''completed'', field t ''dueDate''))
        (listed (fst (get_tasks sample_platform
           (snd (serve sample_platform unparseable_then_dated offline_server)))))
      = [(Json (JStr ''call mom''), Json (JBool False), DateObj None),
         (Json (JStr ''buy milk''), Json (JBool False), DateObj (Some 4070908800000))]
   \<and> map (\<lambda>t. toJSON_field toISOString (field t ''dueDate''))
        (listed (fst (get_tasks sample_platform
           (snd (serve sample_platform unparseable_then_dated offline_server)))))
      = [Some JNull, Some (JStr (toISOString 4070908800000))]
   \<and> \<not> sorted_wrt (list_order sample_runtime)
        (listed (fst (get_tasks sample_platform
           (snd (serve sample_platform unparseable_then_dated offline_server)))))"
  by (simp add: server_eval unparseable_then_dated_def listed_def list_order_def spec_due_def
        spec_completed_def toJSON_field_def)

subsection \<open>Reading after deleting\<close>

lemma find_None_iff_all: "find Q xs = None \<longleftrightarrow> (\<forall>x\<in>set xs. \<not> Q x)"
  by (induction xs) auto

lemma distinct_map_removed:
  assumes "distinct (map f xs)" and "idx < length xs"
  shows "\<forall>x\<in>set (take idx xs @ drop (Suc idx) xs). f x \<noteq> f (xs ! idx)"
proof -
  from assms(2) have xs: "xs = take idx xs @ xs ! idx # drop (Suc idx) xs"
    by (rule id_take_nth_drop)
  from assms(1) have "distinct (map f (take idx xs @ xs ! idx # drop (Suc idx) xs))"
    using xs by simp
  then show ?thesis by (auto simp: image_iff)
qed

text \<open>
  Claim C9, as stated: after a successful deletion of an id, reading the id answers 404 and
  no listed task carries it. The fallback path of \<^verbatim>\<open>PUT /tasks/:id\<close> merges the whole
  payload, an \<^verbatim>\<open>_id\<close> field included, so two stored tasks can carry one id; the deletion
  removes the first of them only. In the session below the six answers are 201, 201, 200
  (update), 200 (deletion), 200 (the read that should fail) and 200 (listing), and the
  remaining task still carries the deleted id.
\<close>

theorem delete_duplicate_id_counterexample:
  "map fst (fst (serve sample_platform duplicate_id_session offline_server))
     = [201, 201, 200, 200, 200, 200]
   \<and> map (\<lambda>t. (field t ''_id'', field t ''text''))
        (inMemoryTasks (snd (serve sample_platform duplicate_id_session offline_server)))
     = [(Json (JStr ''1700000000000-1''), Json (JStr ''bread''))]
   \<and> map (\<lambda>t. (field t ''_id'', field t ''text''))
        (listed (last (fst (serve sample_platform duplicate_id_session offline_server))))
     = [(Json (JStr ''1700000000000-1''), Json (JStr ''bread''))]"
  by (simp add: server_eval duplicate_id_session_def listed_def)

text \<open>
  Claim C9, amended. On the fallback path, when the stored tasks carry pairwise distinct
  ids, after a successful \<^verbatim>\<open>DELETE /tasks/:id\<close> a \<^verbatim>\<open>GET /tasks/:id\<close> of the same id answers
  404, no task of the listing carries the id, and no stored task does.
\<close>

theorem delete_then_absent:
  assumes "\<not> isDbConnected s"
    and "distinct (map (\<lambda>t. field t ''_id'') (inMemoryTasks s))"
    and "fst (fst (delete_task P ident s)) = 200"
  shows "get_task P ident (snd (delete_task P ident s))
           = ((404, Message ''Task not found''), snd (delete_task P ident s))
         \<and> (\<forall>t\<in>set (listed (fst (get_tasks P (snd (delete_task P ident s))))).
               field t ''_id'' \<noteq> Json (JStr ident))
         \<and> (\<forall>t\<in>set (inMemoryTasks (snd (delete_task P ident s))).
               field t ''_id'' \<noteq> Json (JStr ident))"
proof (cases "findIndex (\<lambda>t. field t ''_id'' = Json (JStr ident)) (inMemoryTasks s)")
  case None
  with assms(1,3) show ?thesis by (simp add: delete_task_def)
next
  case (Some idx)
  let ?xs = "inMemoryTasks s"
  let ?ys = "take idx ?xs @ drop (Suc idx) ?xs"
  from findIndex_Some [OF Some]
  have idx: "idx < length ?xs" and hit: "field (?xs ! idx) ''_id'' = Json (JStr ident)"
    by simp_all
  from assms(1) Some
  have s': "snd (delete_task P ident s) = s\<lparr>inMemoryTasks := ?ys\<rparr>"
    by (simp add: delete_task_def splice1_def)
  from distinct_map_removed [OF assms(2) idx] hit
  have gone: "\<forall>t\<in>set ?ys. field t ''_id'' \<noteq> Json (JStr ident)"
    by simp
  then have "find (\<lambda>t. field t ''_id'' = Json (JStr ident)) ?ys = None"
    by (simp only: find_None_iff_all)
  with assms(1) have g: "get_task P ident (s\<lparr>inMemoryTasks := ?ys\<rparr>)
      = ((404, Message ''Task not found''), s\<lparr>inMemoryTasks := ?ys\<rparr>)"
    by (simp add: get_task_def isDbConnected_def)
  have "set (listed (fst (get_tasks P (s\<lparr>inMemoryTasks := ?ys\<rparr>)))) \<subseteq> set ?ys"
  proof (cases "Array_sort (task_compare (js P)) ?ys")
    case Throw
    with assms(1) show ?thesis
      by (simp add: get_tasks_def listed_def isDbConnected_def)
  next
    case (Normal zs)
    then have "mset zs = mset ?ys"
      by (simp add: Array_sort_def mset_sort_into)
    then have "set zs = set ?ys" by (rule mset_eq_setD)
    with Normal assms(1) show ?thesis
      by (simp add: get_tasks_def listed_def isDbConnected_def)
  qed
  with gone g s' show ?thesis by auto
qed

theorem delete_then_absent_witness:
  "get_task sample_platform ''1700000000000-1''
      (snd (delete_task sample_platform ''1700000000000-1'' two_tasks))
     = ((404, Message ''Task not found''), two_tasks\<lparr>inMemoryTasks := [bread_task]\<rparr>)
   \<and> listed (fst (get_tasks sample_platform
        (snd (delete_task sample_platform ''1700000000000-1'' two_tasks)))) = [bread_task]"
  using delete_then_absent [where P = sample_platform and s = two_tasks
          and ident = "''1700000000000-1''"]
  by (simp add: server_eval listed_def)

subsection \<open>Ids and time stamps of created tasks\<close>

text \<open>A fallback id is the decimal clock reading, a dash, and the decimal id counter. The
  counter's digits hold no dash, so the counter can be read back from the id: ids built
  from different counter values differ. (The counter is a natural number here; the
  JavaScript number that holds it is exact up to \<open>2\<^sup>5\<^sup>3\<close>.)\<close>

lemma digit_char_code: "d < 10 \<Longrightarrow> of_char (digit_char d) = 48 + d"
proof -
  assume "d < 10"
  then consider "d = 0" | "d = 1" | "d = 2" | "d = 3" | "d = 4" | "d = 5" | "d = 6"
    | "d = 7" | "d = 8" | "d = 9"
    by atomize_elim arith
  then show ?thesis
    by cases (simp_all add: digit_char_def)
qed

lemma digit_char_inj: "d < 10 \<Longrightarrow> e < 10 \<Longrightarrow> digit_char d = digit_char e \<Longrightarrow> d = e"
proof -
  assume d: "d < 10" and e: "e < 10" and eq: "digit_char d = digit_char e"
  from eq have "(of_char (digit_char d) :: nat) = of_char (digit_char e)" by simp
  with d e show "d = e" by (simp add: digit_char_code)
qed

lemma digit_char_not_dash: "d < 10 \<Longrightarrow> digit_char d \<noteq> CHR ''-''"
proof
  assume d: "d < 10" and eq: "digit_char d = CHR ''-''"
  from eq have "(of_char (digit_char d) :: nat) = of_char (CHR ''-'')" by simp
  with d show False by (simp add: digit_char_code)
qed

lemma digits_not_Nil: "digits n \<noteq> []"
  by (subst digits.simps) simp

lemma digits_no_dash: "CHR ''-'' \<notin> set (digits n)"
proof (induction n rule: digits.induct)
  case (1 n)
  show ?case
  proof (cases "n < 10")
    case True
    then show ?thesis
      using digit_char_not_dash [of n] by (subst digits.simps) auto
  next
    case False
    then have "n mod 10 < 10" by simp
    with False 1 show ?thesis
      using digit_char_not_dash [of "n mod 10"] by (subst digits.simps) auto
  qed
qed

lemma digits_inj: "digits n = digits m \<Longrightarrow> n = m"
proof (induction n arbitrary: m rule: digits.induct)
  case (1 n)
  show ?case
  proof (cases "n < 10")
    case True
    then have dn: "digits n = [digit_char n]" by (subst digits.simps) simp
    show ?thesis
    proof (cases "m < 10")
      case mlt: True
      then have "digits m = [digit_char m]" by (subst digits.simps) simp
      with dn "1.prems" True mlt show ?thesis by (simp add: digit_char_inj)
    next
      case False
      then have "digits m = digits (m div 10) @ [digit_char (m mod 10)]"
        by (subst digits.simps) simp
      with dn "1.prems" digits_not_Nil [of "m div 10"] show ?thesis by simp
    qed
  next
    case False
    then have dn: "digits n = digits (n div 10) @ [digit_char (n mod 10)]"
      by (subst digits.simps) simp
    show ?thesis
    proof (cases "m < 10")
      case True
      then have "digits m = [digit_char m]" by (subst digits.simps) simp
      with dn "1.prems" digits_not_Nil [of "n div 10"] show ?thesis by simp
    next
      case mge: False
      then have "digits m = digits (m div 10) @ [digit_char (m mod 10)]"
        by (subst digits.simps) simp
      with dn "1.prems" have a: "digits (n div 10) = digits (m div 10)"
        and b: "digit_char (n mod 10) = digit_char (m mod 10)"
        by simp_all
      from "1.IH" [OF False a] have q: "n div 10 = m div 10" .
      from b have r: "n mod 10 = m mod 10" by (simp add: digit_char_inj)
      from q r show ?thesis by (metis div_mult_mod_eq)
    qed
  qed
qed

lemma after_last_separator:
  assumes "xs @ c # ys = xs' @ c # ys'" and "c \<notin> set ys" and "c \<notin> set ys'"
  shows "ys = ys'"
proof -
  have "takeWhile (\<lambda>x. x \<noteq> c) (rev (xs @ c # ys)) = rev ys"
    using assms(2) by (auto simp: takeWhile_append2 [where xs = "rev ys"] takeWhile_tail)
  moreover have "takeWhile (\<lambda>x. x \<noteq> c) (rev (xs' @ c # ys')) = rev ys'"
    using assms(3) by (auto simp: takeWhile_append2 [where xs = "rev ys'"] takeWhile_tail)
  ultimately have "rev ys = rev ys'" using assms(1) by simp
  then show ?thesis by simp
qed

lemma id_serial_inj: "ts @ ''-'' @ digits n = ts' @ ''-'' @ digits m \<Longrightarrow> n = m"
proof -
  assume "ts @ ''-'' @ digits n = ts' @ ''-'' @ digits m"
  then have "ts @ CHR ''-'' # digits n = ts' @ CHR ''-'' # digits m" by simp
  then have "digits n = digits m"
    by (rule after_last_separator) (rule digits_no_dash)+
  then show ?thesis by (rule digits_inj)
qed


lemma serve_Cons:
  "serve P (r # rs) s =
     (fst (handle P r s) # fst (serve P rs (snd (handle P r s))),
      snd (serve P rs (snd (handle P r s))))"
  by (simp split: prod.splits)

lemma handle_fallback_stays:
  assumes "\<not> isDbConnected s"
  shows "\<not> isDbConnected (snd (handle P r s))"
    and "inMemoryIdCounter s \<le> inMemoryIdCounter (snd (handle P r s))"
  using assms
  by (cases r; simp add: get_tasks_def get_task_def post_task_def put_task_def delete_task_def
        isDbConnected_def Let_def split: option.splits completion.splits)+

lemma handle_created:
  assumes "\<not> isDbConnected s" and "created_id (fst (handle P r s)) = Some v"
  shows "\<exists>ts. v = Json (JStr (ts @ ''-'' @ digits (inMemoryIdCounter s)))"
    and "inMemoryIdCounter (snd (handle P r s)) = inMemoryIdCounter s + 1"
proof -
  from assms obtain b t1 t2 t3 where r: "r = PostTask b t1 t2 t3"
    by (cases r)
       (auto simp: get_tasks_def get_task_def put_task_def delete_task_def Let_def
             split: option.splits completion.splits)
  from assms(1)
  have "(\<exists>ts. v = Json (JStr (ts @ ''-'' @ digits (inMemoryIdCounter s))))
      \<and> inMemoryIdCounter (snd (handle P r s)) = inMemoryIdCounter s + 1"
  proof (cases rule: post_task_fallback
      [where P = P and b = b and t_id = t1 and t_created = t2 and t_updated = t3])
    case (refused m)
    with assms(2) r show ?thesis by simp
  next
    case thrown
    with assms(2) r show ?thesis by simp
  next
    case (stored title due pos)
    with assms(2) r
    have "v = Json (JStr (string_of_int t1 @ ''-'' @ digits (inMemoryIdCounter s)))"
      by (simp add: field_def)
    then have "\<exists>ts. v = Json (JStr (ts @ ''-'' @ digits (inMemoryIdCounter s)))"
      by blast
    with stored r show ?thesis by simp
  qed
  then show "\<exists>ts. v = Json (JStr (ts @ ''-'' @ digits (inMemoryIdCounter s)))"
    and "inMemoryIdCounter (snd (handle P r s)) = inMemoryIdCounter s + 1"
    by simp_all
qed

lemma created_ids_serial:
  assumes "\<not> isDbConnected s" and "v \<in> set (created_ids (fst (serve P reqs s)))"
  shows "\<exists>ts n. v = Json (JStr (ts @ ''-'' @ digits n)) \<and> inMemoryIdCounter s \<le> n"
  using assms
proof (induction reqs arbitrary: s)
  case Nil
  then show ?case by simp
next
  case (Cons r rs)
  let ?s' = "snd (handle P r s)"
  have s': "\<not> isDbConnected ?s'" and mono: "inMemoryIdCounter s \<le> inMemoryIdCounter ?s'"
    using Cons.prems(1) by (rule handle_fallback_stays)+
  from Cons.prems(2)
  consider (head) "created_id (fst (handle P r s)) = Some v"
    | (tail) "v \<in> set (created_ids (fst (serve P rs ?s')))"
    by (auto simp del: serve.simps(2) simp add: serve_Cons split: option.splits)
  then show ?case
  proof cases
    case head
    from handle_created(1) [OF Cons.prems(1) head] show ?thesis by blast
  next
    case tail
    from Cons.IH [OF s' tail] obtain ts n
      where v: "v = Json (JStr (ts @ ''-'' @ digits n))" and n: "inMemoryIdCounter ?s' \<le> n"
      by blast
    from mono n have "inMemoryIdCounter s \<le> n" by simp
    with v show ?thesis by blast
  qed
qed

lemma created_ids_distinct:
  assumes "\<not> isDbConnected s"
  shows "distinct (created_ids (fst (serve P reqs s)))"
  using assms
proof (induction reqs arbitrary: s)
  case Nil
  then show ?case by simp
next
  case (Cons r rs)
  let ?s' = "snd (handle P r s)"
  have s': "\<not> isDbConnected ?s'"
    using Cons.prems by (rule handle_fallback_stays)
  have tl: "distinct (created_ids (fst (serve P rs ?s')))"
    using s' by (rule Cons.IH)
  show ?case
  proof (cases "created_id (fst (handle P r s))")
    case None
    with tl show ?thesis by (simp del: serve.simps(2) add: serve_Cons)
  next
    case (Some v)
    from handle_created [OF Cons.prems Some] obtain ts
      where v: "v = Json (JStr (ts @ ''-'' @ digits (inMemoryIdCounter s)))"
        and c: "inMemoryIdCounter ?s' = inMemoryIdCounter s + 1"
      by blast
    have "v \<notin> set (created_ids (fst (serve P rs ?s')))"
    proof
      assume "v \<in> set (created_ids (fst (serve P rs ?s')))"
      from created_ids_serial [OF s' this] obtain ts' n
        where v': "v = Json (JStr (ts' @ ''-'' @ digits n))" and n: "inMemoryIdCounter ?s' \<le> n"
        by blast
      from v v' have "ts @ ''-'' @ digits (inMemoryIdCounter s) = ts' @ ''-'' @ digits n"
        by simp
      then have "inMemoryIdCounter s = n" by (rule id_serial_inj)
      with n c show False by simp
    qed
    with tl Some show ?thesis by (simp del: serve.simps(2) add: serve_Cons)
  qed
qed

text \<open>
  Claim C8, as stated: immediately after creation \<^verbatim>\<open>createdAt\<close> equals \<^verbatim>\<open>updatedAt\<close>. The
  fallback path builds the record with two separate \<^verbatim>\<open>new Date()\<close> calls, one per field;
  when the clock advances between them the two fields differ.
\<close>

theorem created_stamps_differ_counterexample:
  "fst (fst (post_task sample_platform [(''text'', JStr ''bread'')]
               1700000000500 1700000000500 1700000000501 offline_server)) = 201
   \<and> field (last (inMemoryTasks (snd (post_task sample_platform [(''text'', JStr ''bread'')]
               1700000000500 1700000000500 1700000000501 offline_server)))) ''createdAt''
      = DateObj (Some 1700000000500)
   \<and> field (last (inMemoryTasks (snd (post_task sample_platform [(''text'', JStr ''bread'')]
               1700000000500 1700000000500 1700000000501 offline_server)))) ''updatedAt''
      = DateObj (Some 1700000000501)
   \<and> DateObj (Some 1700000000500) \<noteq> DateObj (Some 1700000000501)"
  by (simp add: server_eval)

text \<open>
  Claim C8, amended. On the fallback path the ids of the tasks created while a sequence of
  requests is served are pairwise distinct; and a successful creation stores, as the last
  record, the task it answers with, whose \<^verbatim>\<open>createdAt\<close> is the clock reading taken for it
  and whose \<^verbatim>\<open>updatedAt\<close> is the reading taken next, so the two are equal exactly when the
  two readings are.
\<close>

theorem created_ids_unique_stamps_read:
  "(\<not> isDbConnected s \<longrightarrow> distinct (created_ids (fst (serve P reqs s))))
   \<and> (\<not> isDbConnected s \<and> fst (fst (post_task P reqbody t_id t_created t_updated s)) = 201
      \<longrightarrow> (\<exists>t. fst (post_task P reqbody t_id t_created t_updated s) = (201, TaskDoc t)
             \<and> last (inMemoryTasks (snd (post_task P reqbody t_id t_created t_updated s))) = t
             \<and> field t ''createdAt'' = DateObj (Some t_created)
             \<and> field t ''updatedAt'' = DateObj (Some t_updated)))"
proof (intro conjI impI)
  assume "\<not> isDbConnected s"
  then show "distinct (created_ids (fst (serve P reqs s)))"
    by (rule created_ids_distinct)
next
  assume a: "\<not> isDbConnected s
    \<and> fst (fst (post_task P reqbody t_id t_created t_updated s)) = 201"
  then have "\<not> isDbConnected s" by simp
  then show "\<exists>t. fst (post_task P reqbody t_id t_created t_updated s) = (201, TaskDoc t)
             \<and> last (inMemoryTasks (snd (post_task P reqbody t_id t_created t_updated s))) = t
             \<and> field t ''createdAt'' = DateObj (Some t_created)
             \<and> field t ''updatedAt'' = DateObj (Some t_updated)"
  proof (cases rule: post_task_fallback
      [where P = P and b = reqbody and t_id = t_id and t_created = t_created
         and t_updated = t_updated])
    case (refused m)
    with a show ?thesis by simp
  next
    case thrown
    with a show ?thesis by simp
  next
    case (stored title due pos)
    then show ?thesis by (simp add: field_def)
  qed
qed

theorem created_ids_unique_stamps_read_witness:
  "distinct (created_ids (fst (serve sample_platform two_posts offline_server)))
   \<and> created_ids (fst (serve sample_platform two_posts offline_server))
      = [Json (JStr ''1700000000000-1''), Json (JStr ''1700000000500-2'')]
   \<and> fst (post_task sample_platform [(''text'', JStr ''bread'')]
             1700000000500 1700000000500 1700000000501 offline_server)
      = (201, TaskDoc [(''_id'', Json (JStr ''1700000000500-1'')),
                       (''text'', Json (JStr ''bread'')),
                       (''completed'', Json (JBool False)),
                       (''createdAt'', DateObj (Some 1700000000500)),
                       (''updatedAt'', DateObj (Some 1700000000501)),
                       (''dueDate'', Json JNull),
                       (''position'', Json JNull)])"
  using created_ids_unique_stamps_read [where P = sample_platform and s = offline_server
          and reqs = two_posts and reqbody = "[(''text'', JStr ''bread'')]"
          and t_id = 1700000000500 and t_created = 1700000000500 and t_updated = 1700000000501]
  by (simp add: server_eval)

subsection \<open>The creation stamp under later requests\<close>

text \<open>The merge of an update reads every field the payload does not name from the stored
  record, and \<^verbatim>\<open>updatedAt\<close> from the clock reading the handler put into the payload.\<close>

lemma map_of_spread: "map_of (spread a b) = map_of a ++ map_of (rev b)"
proof (induction b arbitrary: a)
  case Nil
  then show ?case by (simp add: spread_def)
next
  case (Cons p b)
  obtain k v where p: "p = (k, v)" by (cases p)
  have "spread a (p # b) = spread (AList.update k v a) b"
    by (simp add: spread_def p)
  then have "map_of (spread a (p # b)) = map_of (AList.update k v a) ++ map_of (rev b)"
    by (simp only: Cons.IH)
  also have "\<dots> = (map_of a)(k \<mapsto> v) ++ map_of (rev b)"
    by (simp only: update_conv')
  also have "\<dots> = map_of a ++ map_of (rev (p # b))"
    by (simp add: p)
  finally show ?case .
qed

lemma field_spread_other:
  "k \<notin> fst ` set b \<Longrightarrow> field (spread a b) k = field a k"
proof -
  assume "k \<notin> fst ` set b"
  then have "map_of (rev b) k = None"
    by (simp add: map_of_eq_None_iff)
  then show ?thesis
    by (simp add: field_def map_of_spread map_add_def)
qed

lemma distinct_spread: "distinct (map fst a) \<Longrightarrow> distinct (map fst (spread a b))"
proof (induction b arbitrary: a)
  case Nil
  then show ?case by (simp add: spread_def)
next
  case (Cons p b)
  obtain k v where p: "p = (k, v)" by (cases p)
  have "spread a (p # b) = spread (AList.update k v a) b"
    by (simp add: spread_def p)
  with Cons show ?case by (simp add: distinct_update)
qed

lemma keys_spread: "fst ` set (spread a b) = fst ` set a \<union> fst ` set b"
proof (induction b arbitrary: a)
  case Nil
  then show ?case by (simp add: spread_def)
next
  case (Cons p b)
  obtain k v where p: "p = (k, v)" by (cases p)
  have "spread a (p # b) = spread (AList.update k v a) b"
    by (simp add: spread_def p)
  with Cons [of "AList.update k v a"] show ?case
    by (auto simp: p dom_update)
qed

lemma keys_put_payload:
  "fst ` set (put_payload reqbody now) = insert ''updatedAt'' (fst ` set reqbody)"
proof -
  have "fst ` set (map (\<lambda>(k, v). (k, Json v)) reqbody) = fst ` set reqbody"
    by force
  then show ?thesis
    by (simp add: put_payload_def dom_update keys_spread)
qed

lemma map_of_rev_distinct: "distinct (map fst xs) \<Longrightarrow> map_of (rev xs) = map_of xs"
proof -
  assume d: "distinct (map fst xs)"
  then have "distinct (map fst (rev xs))" by (simp add: rev_map [symmetric])
  with d show ?thesis by (simp add: map_of_inject_set)
qed

lemma put_payload_updatedAt:
  "map_of (rev (put_payload reqbody now)) ''updatedAt'' = Some (DateObj (Some now))"
proof -
  have "distinct (map fst (put_payload reqbody now))"
    by (simp add: put_payload_def distinct_update distinct_spread)
  then have "map_of (rev (put_payload reqbody now)) = map_of (put_payload reqbody now)"
    by (rule map_of_rev_distinct)
  then show ?thesis by (simp add: put_payload_def update_conv')
qed

lemma field_merged_updatedAt:
  "field (spread old (put_payload reqbody now)) ''updatedAt'' = DateObj (Some now)"
  by (simp add: field_def map_of_spread map_add_def put_payload_updatedAt)

lemma field_merged_createdAt:
  "''createdAt'' \<notin> fst ` set reqbody \<Longrightarrow>
     field (spread old (put_payload reqbody now)) ''createdAt'' = field old ''createdAt''"
  by (rule field_spread_other) (simp add: keys_put_payload)


lemma subseq_append_right: "subseq xs (xs @ ys)"
  using list_emb_append_mono [of "(=)" xs xs "[]" ys] by simp

lemma subseq_splice1: "subseq (splice1 idx xs) xs"
proof (cases "idx < length xs")
  case True
  then have xs: "xs = take idx xs @ xs ! idx # drop (Suc idx) xs"
    by (rule id_take_nth_drop)
  have "subseq (take idx xs @ drop (Suc idx) xs) (take idx xs @ xs ! idx # drop (Suc idx) xs)"
    by (rule list_emb_append_mono) (auto intro: list_emb_Cons)
  with xs show ?thesis by (simp add: splice1_def)
next
  case False
  then show ?thesis by (simp add: splice1_def)
qed

lemma put_task_createdAts:
  assumes "\<not> isDbConnected s" and "''createdAt'' \<notin> fst ` set reqbody"
  shows "createdAts (snd (put_task P ident reqbody now s)) = createdAts s"
proof (cases "findIndex (\<lambda>t. field t ''_id'' = Json (JStr ident)) (inMemoryTasks s)")
  case None
  with assms(1) show ?thesis by (simp add: put_task_def)
next
  case (Some idx)
  let ?xs = "inMemoryTasks s"
  let ?m = "spread (?xs ! idx) (put_payload reqbody now)"
  from findIndex_Some [OF Some] have idx: "idx < length ?xs" by simp
  from assms(1) Some have "inMemoryTasks (snd (put_task P ident reqbody now s)) = ?xs[idx := ?m]"
    by (simp add: put_task_def Let_def)
  then have "createdAts (snd (put_task P ident reqbody now s))
      = (map (\<lambda>t. field t ''createdAt'') ?xs)[idx := field ?m ''createdAt'']"
    by (simp add: createdAts_def map_update)
  also have "\<dots> = (map (\<lambda>t. field t ''createdAt'') ?xs)
      [idx := map (\<lambda>t. field t ''createdAt'') ?xs ! idx]"
    using idx assms(2) by (simp add: field_merged_createdAt)
  also have "\<dots> = createdAts s"
    by (simp only: list_update_id createdAts_def)
  finally show ?thesis .
qed

lemma handle_createdAts:
  assumes "\<not> isDbConnected s" and "\<not> carries ''createdAt'' r"
  shows "subseq (createdAts (snd (handle P r s))) (createdAts s @ created_stamps [r])"
proof (cases r)
  case GetTasks
  with assms(1) show ?thesis by (simp add: get_tasks_state)
next
  case (GetTask ident)
  with assms(1) show ?thesis by (simp add: get_task_def split: option.splits)
next
  case (PostTask b t1 t2 t3)
  from assms(1) show ?thesis
  proof (cases rule: post_task_fallback
      [where P = P and b = b and t_id = t1 and t_created = t2 and t_updated = t3])
    case (refused m)
    with PostTask show ?thesis by (simp add: subseq_append_right)
  next
    case thrown
    with PostTask show ?thesis by (simp add: createdAts_def subseq_append_right)
  next
    case (stored title due pos)
    with PostTask show ?thesis by (simp add: createdAts_def field_def)
  qed
next
  case (PutTask ident b t)
  with assms show ?thesis by (simp add: put_task_createdAts)
next
  case (DeleteTask ident)
  with assms(1) show ?thesis
    by (simp add: delete_task_def createdAts_def subseq_map subseq_splice1 split: option.splits)
qed

lemma serve_createdAts:
  assumes "\<not> isDbConnected s" and "\<forall>r\<in>set reqs. \<not> carries ''createdAt'' r"
  shows "subseq (createdAts (snd (serve P reqs s))) (createdAts s @ created_stamps reqs)"
  using assms
proof (induction reqs arbitrary: s)
  case Nil
  then show ?case by simp
next
  case (Cons r rs)
  let ?s' = "snd (handle P r s)"
  have s': "\<not> isDbConnected ?s'"
    using Cons.prems(1) by (rule handle_fallback_stays)
  from Cons.prems(2) have r: "\<not> carries ''createdAt'' r"
    and rs: "\<forall>r\<in>set rs. \<not> carries ''createdAt'' r"
    by simp_all
  have "subseq (createdAts (snd (serve P rs ?s'))) (createdAts ?s' @ created_stamps rs)"
    using s' rs by (rule Cons.IH)
  moreover have "subseq (createdAts ?s' @ created_stamps rs)
      ((createdAts s @ created_stamps [r]) @ created_stamps rs)"
    using handle_createdAts [OF Cons.prems(1) r]
    by (rule list_emb_append_mono) simp
  moreover have "created_stamps [r] @ created_stamps rs = created_stamps (r # rs)"
    by (cases r) simp_all
  ultimately have "subseq (createdAts (snd (serve P rs ?s')))
      (createdAts s @ created_stamps (r # rs))"
    by (metis append.assoc subseq_order.order_trans)
  then show ?case by (simp del: serve.simps(2) add: serve_Cons)
qed

lemma stamps_ok_mono: "stamps_ok now t \<Longrightarrow> now \<le> now' \<Longrightarrow> stamps_ok now' t"
  by (auto simp: stamps_ok_def split: option.splits)

lemma stamps_ok_merged:
  assumes "stamps_ok now old" and "now \<le> t" and "''createdAt'' \<notin> fst ` set reqbody"
  shows "stamps_ok t (spread old (put_payload reqbody t))"
  using assms
  by (auto simp: stamps_ok_def field_merged_createdAt field_merged_updatedAt split: option.splits)

lemma handle_stamps:
  assumes "\<not> isDbConnected s" and "\<not> carries ''createdAt'' r" and "clock_step now r"
    and "\<forall>t\<in>set (inMemoryTasks s). stamps_ok now t"
  shows "\<forall>t\<in>set (inMemoryTasks (snd (handle P r s))). stamps_ok (clock_after now r) t"
proof (cases r)
  case GetTasks
  with assms show ?thesis by (simp add: get_tasks_state)
next
  case (GetTask ident)
  with assms show ?thesis by (simp add: get_task_def split: option.splits)
next
  case (PostTask b t1 t2 t3)
  with assms(3) have le: "now \<le> t3" and c: "t2 \<le> t3" by simp_all
  from assms(4) le have old: "\<forall>t\<in>set (inMemoryTasks s). stamps_ok t3 t"
    by (blast intro: stamps_ok_mono)
  from assms(1) show ?thesis
  proof (cases rule: post_task_fallback
      [where P = P and b = b and t_id = t1 and t_created = t2 and t_updated = t3])
    case (refused m)
    with PostTask old show ?thesis by simp
  next
    case thrown
    with PostTask old show ?thesis by simp
  next
    case (stored title due pos)
    with PostTask old c show ?thesis by (simp add: stamps_ok_def field_def)
  qed
next
  case (PutTask ident b t)
  with assms(3) have le: "now \<le> t" by simp
  from assms(2) PutTask have nc: "''createdAt'' \<notin> fst ` set b" by simp
  from assms(4) le have old: "\<forall>x\<in>set (inMemoryTasks s). stamps_ok t x"
    by (blast intro: stamps_ok_mono)
  show ?thesis
  proof (cases "findIndex (\<lambda>t. field t ''_id'' = Json (JStr ident)) (inMemoryTasks s)")
    case None
    with assms(1) PutTask old show ?thesis by (simp add: put_task_def)
  next
    case (Some idx)
    from findIndex_Some [OF Some] have idx: "idx < length (inMemoryTasks s)" by simp
    with assms(4) have "stamps_ok now (inMemoryTasks s ! idx)" by simp
    then have m: "stamps_ok t (spread (inMemoryTasks s ! idx) (put_payload b t))"
      using le nc by (rule stamps_ok_merged)
    have "set ((inMemoryTasks s)[idx := spread (inMemoryTasks s ! idx) (put_payload b t)])
        \<subseteq> insert (spread (inMemoryTasks s ! idx) (put_payload b t)) (set (inMemoryTasks s))"
      by (rule set_update_subset_insert)
    with m old have "\<forall>x\<in>set ((inMemoryTasks s)
        [idx := spread (inMemoryTasks s ! idx) (put_payload b t)]). stamps_ok t x"
      by blast
    with assms(1) PutTask Some show ?thesis by (simp add: put_task_def Let_def)
  qed
next
  case (DeleteTask ident)
  have "set (splice1 idx (inMemoryTasks s)) \<subseteq> set (inMemoryTasks s)" for idx
    by (auto simp: splice1_def dest: in_set_takeD in_set_dropD)
  with assms(1,4) DeleteTask show ?thesis
    by (auto simp: delete_task_def split: option.splits)
qed

lemma serve_stamps:
  assumes "\<not> isDbConnected s" and "\<forall>r\<in>set reqs. \<not> carries ''createdAt'' r"
    and "clock_ok now reqs" and "\<forall>t\<in>set (inMemoryTasks s). stamps_ok now t"
  shows "\<exists>now'. \<forall>t\<in>set (inMemoryTasks (snd (serve P reqs s))). stamps_ok now' t"
  using assms
proof (induction reqs arbitrary: s now)
  case Nil
  then show ?case by auto
next
  case (Cons r rs)
  let ?s' = "snd (handle P r s)"
  have s': "\<not> isDbConnected ?s'"
    using Cons.prems(1) by (rule handle_fallback_stays)
  from Cons.prems(2) have r: "\<not> carries ''createdAt'' r"
    and rs: "\<forall>r\<in>set rs. \<not> carries ''createdAt'' r"
    by simp_all
  from Cons.prems(3) have st: "clock_step now r" and ok: "clock_ok (clock_after now r) rs"
    by simp_all
  have "\<forall>t\<in>set (inMemoryTasks ?s'). stamps_ok (clock_after now r) t"
    using Cons.prems(1) r st Cons.prems(4) by (rule handle_stamps)
  with s' rs ok have "\<exists>now'. \<forall>t\<in>set (inMemoryTasks (snd (serve P rs ?s'))). stamps_ok now' t"
    by (rule Cons.IH)
  then show ?case by (simp del: serve.simps(2) add: serve_Cons)
qed


lemma stamp_Some: "stamp v = Some c \<Longrightarrow> v = DateObj (Some c)"
  by (cases v) simp_all

lemma stamps_ok_ordered:
  "stamps_ok now t \<Longrightarrow>
     \<exists>c u. field t ''createdAt'' = DateObj (Some c) \<and> field t ''updatedAt'' = DateObj (Some u)
       \<and> c \<le> u"
  by (auto simp: stamps_ok_def split: option.splits dest: stamp_Some)

text \<open>
  Claim C6, as stated: \<^verbatim>\<open>createdAt\<close> is never mutated after creation and never exceeds
  \<^verbatim>\<open>updatedAt\<close>. An update merges whatever fields the payload has, \<^verbatim>\<open>createdAt\<close> included:
  here the stored stamp of \<open>milk_task\<close> is replaced by the number the client sent, which as
  a time value lies after the \<^verbatim>\<open>updatedAt\<close> the same update sets.
\<close>

theorem createdAt_overwritten_counterexample:
  "field (inMemoryTasks two_tasks ! 0) ''createdAt'' = DateObj (Some 1700000000000)
   \<and> fst (fst (put_task sample_platform ''1700000000000-1''
        [(''createdAt'', JNum 9999999999999)] 1700000000900 two_tasks)) = 200
   \<and> field (inMemoryTasks (snd (put_task sample_platform ''1700000000000-1''
        [(''createdAt'', JNum 9999999999999)] 1700000000900 two_tasks)) ! 0) ''createdAt''
      = Json (JNum 9999999999999)
   \<and> field (inMemoryTasks (snd (put_task sample_platform ''1700000000000-1''
        [(''createdAt'', JNum 9999999999999)] 1700000000900 two_tasks)) ! 0) ''updatedAt''
      = DateObj (Some 1700000000900)
   \<and> new_Date sample_runtime (Json (JNum 9999999999999)) = Normal (Some 9999999999999)
   \<and> (1700000000900 :: int) < 9999999999999"
  by (simp add: server_eval)

text \<open>
  Claim C6, amended. On the fallback path, along any sequence of requests in which no update
  payload has a \<^verbatim>\<open>createdAt\<close> field and the clock does not run backwards, starting from a
  collection whose stamps are in order: the \<^verbatim>\<open>createdAt\<close> values stored at the end are, in
  order, values stored at the start or assigned by a creation of the sequence; every stored
  task has \<^verbatim>\<open>createdAt\<close> not after \<^verbatim>\<open>updatedAt\<close>; and a single update without a
  \<^verbatim>\<open>createdAt\<close> field leaves the \<^verbatim>\<open>createdAt\<close> of every stored task as it was.
\<close>

theorem createdAt_kept:
  assumes "\<not> isDbConnected s"
    and "\<forall>r\<in>set reqs. \<not> carries ''createdAt'' r"
    and "clock_ok now reqs"
    and "\<forall>t\<in>set (inMemoryTasks s). stamps_ok now t"
  shows "subseq (createdAts (snd (serve P reqs s))) (createdAts s @ created_stamps reqs)
    \<and> (\<forall>t\<in>set (inMemoryTasks (snd (serve P reqs s))).
          \<exists>c u. field t ''createdAt'' = DateObj (Some c)
            \<and> field t ''updatedAt'' = DateObj (Some u) \<and> c \<le> u)
    \<and> (''createdAt'' \<notin> fst ` set reqbody
          \<longrightarrow> createdAts (snd (put_task P ident reqbody t_put s)) = createdAts s)"
proof (intro conjI impI)
  show "subseq (createdAts (snd (serve P reqs s))) (createdAts s @ created_stamps reqs)"
    using assms(1,2) by (rule serve_createdAts)
next
  from serve_stamps [OF assms] obtain now'
    where "\<forall>t\<in>set (inMemoryTasks (snd (serve P reqs s))). stamps_ok now' t"
    by blast
  then show "\<forall>t\<in>set (inMemoryTasks (snd (serve P reqs s))).
          \<exists>c u. field t ''createdAt'' = DateObj (Some c)
            \<and> field t ''updatedAt'' = DateObj (Some u) \<and> c \<le> u"
    by (blast dest: stamps_ok_ordered)
next
  assume "''createdAt'' \<notin> fst ` set reqbody"
  with assms(1) show "createdAts (snd (put_task P ident reqbody t_put s)) = createdAts s"
    by (rule put_task_createdAts)
qed

theorem createdAt_kept_witness:
  "createdAts (snd (serve sample_platform complete_then_delete offline_server))
     = [DateObj (Some 1700000000000)]
   \<and> map (\<lambda>t. field t ''updatedAt'')
        (inMemoryTasks (snd (serve sample_platform complete_then_delete offline_server)))
     = [DateObj (Some 1700000000900)]
   \<and> created_stamps complete_then_delete
     = [DateObj (Some 1700000000000), DateObj (Some 1700000000500)]
   \<and> createdAts (snd (put_task sample_platform ''1700000000000-1''
        [(''text'', JStr ''buy oat milk'')] 1700000000900 two_tasks))
     = createdAts two_tasks"
  using createdAt_kept [where P = sample_platform and s = offline_server
          and reqs = complete_then_delete and now = 0]
        createdAt_kept [where P = sample_platform and s = two_tasks
          and reqs = "[]" and now = 1700000000501 and ident = "''1700000000000-1''"
          and reqbody = "[(''text'', JStr ''buy oat milk'')]" and t_put = 1700000000900]
  by (simp add: server_eval complete_then_delete_def createdAts_def stamps_ok_def)

subsection \<open>Stored ids stay distinct\<close>

text \<open>The amended deletion property asks for pairwise distinct stored ids. They are distinct
  in every fallback collection that requests build up from the empty collection of startup,
  as long as no update payload has an \<^verbatim>\<open>_id\<close> field: a creation appends an id whose counter
  part is new, an update keeps the ids, a deletion removes one.\<close>

lemma serial_below_mono: "serial_below k v \<Longrightarrow> k \<le> k' \<Longrightarrow> serial_below k' v"
  by (auto simp: serial_below_def intro: less_le_trans)

lemma distinct_splice1: "distinct xs \<Longrightarrow> distinct (splice1 idx xs)"
proof -
  assume d: "distinct xs"
  then have "distinct (take idx xs @ drop idx xs)" by simp
  then have "set (take idx xs) \<inter> set (drop idx xs) = {}"
    by (simp only: distinct_append)
  moreover have "set (drop (Suc idx) xs) \<subseteq> set (drop idx xs)"
    by (rule set_drop_subset_set_drop) simp
  ultimately have "set (take idx xs) \<inter> set (drop (Suc idx) xs) = {}"
    by blast
  with d show ?thesis by (simp add: splice1_def)
qed

lemma put_task_stored_ids:
  assumes "\<not> isDbConnected s" and "''_id'' \<notin> fst ` set reqbody"
  shows "stored_ids (snd (put_task P ident reqbody now s)) = stored_ids s"
proof (cases "findIndex (\<lambda>t. field t ''_id'' = Json (JStr ident)) (inMemoryTasks s)")
  case None
  with assms(1) show ?thesis by (simp add: put_task_def)
next
  case (Some idx)
  let ?xs = "inMemoryTasks s"
  let ?m = "spread (?xs ! idx) (put_payload reqbody now)"
  from findIndex_Some [OF Some] have idx: "idx < length ?xs" by simp
  from assms(2) have "''_id'' \<notin> fst ` set (put_payload reqbody now)"
    by (simp add: keys_put_payload)
  then have keep: "field ?m ''_id'' = field (?xs ! idx) ''_id''"
    by (rule field_spread_other)
  from assms(1) Some have "inMemoryTasks (snd (put_task P ident reqbody now s)) = ?xs[idx := ?m]"
    by (simp add: put_task_def Let_def)
  then have "stored_ids (snd (put_task P ident reqbody now s))
      = (map (\<lambda>t. field t ''_id'') ?xs)[idx := field ?m ''_id'']"
    by (simp add: stored_ids_def map_update)
  also have "\<dots> = (map (\<lambda>t. field t ''_id'') ?xs)[idx := map (\<lambda>t. field t ''_id'') ?xs ! idx]"
    using idx keep by simp
  also have "\<dots> = stored_ids s"
    by (simp only: list_update_id stored_ids_def)
  finally show ?thesis .
qed

lemma handle_ids_apart:
  assumes "\<not> isDbConnected s" and "\<not> carries ''_id'' r" and "ids_apart s"
  shows "ids_apart (snd (handle P r s))"
proof (cases r)
  case GetTasks
  with assms show ?thesis by (simp add: get_tasks_state)
next
  case (GetTask ident)
  with assms show ?thesis by (simp add: get_task_def split: option.splits)
next
  case (PostTask b t1 t2 t3)
  from assms(1) show ?thesis
  proof (cases rule: post_task_fallback
      [where P = P and b = b and t_id = t1 and t_created = t2 and t_updated = t3])
    case (refused m)
    with assms(3) PostTask show ?thesis by simp
  next
    case thrown
    with PostTask
    have ids: "stored_ids (snd (handle P r s)) = stored_ids s"
      and cnt: "inMemoryIdCounter (snd (handle P r s)) = inMemoryIdCounter s + 1"
      by (simp_all add: stored_ids_def)
    from assms(3)
    have "list_all (serial_below (inMemoryIdCounter s + 1)) (stored_ids s)"
      by (auto simp: ids_apart_def list_all_iff intro: serial_below_mono)
    with assms(3) show ?thesis by (simp add: ids_apart_def ids cnt)
  next
    case (stored title due pos)
    let ?new = "Json (JStr (string_of_int t1 @ ''-'' @ digits (inMemoryIdCounter s)))"
    from stored PostTask
    have ids: "stored_ids (snd (handle P r s)) = stored_ids s @ [?new]"
      and cnt: "inMemoryIdCounter (snd (handle P r s)) = inMemoryIdCounter s + 1"
      by (simp_all add: stored_ids_def field_def)
    have fresh: "?new \<notin> set (stored_ids s)"
    proof
      assume "?new \<in> set (stored_ids s)"
      with assms(3) have "serial_below (inMemoryIdCounter s) ?new"
        by (simp add: ids_apart_def list_all_iff)
      then obtain ts n
        where "string_of_int t1 @ ''-'' @ digits (inMemoryIdCounter s) = ts @ ''-'' @ digits n"
          and n: "n < inMemoryIdCounter s"
        by (auto simp: serial_below_def)
      then have "inMemoryIdCounter s = n" by (simp only: id_serial_inj)
      with n show False by simp
    qed
    have "serial_below (inMemoryIdCounter s + 1) ?new"
      unfolding serial_below_def
      by (intro exI [of _ "string_of_int t1"] exI [of _ "inMemoryIdCounter s"]) simp
    moreover from assms(3)
    have "list_all (serial_below (inMemoryIdCounter s + 1)) (stored_ids s)"
      by (auto simp: ids_apart_def list_all_iff intro: serial_below_mono)
    ultimately show ?thesis
      using assms(3) fresh by (simp add: ids_apart_def ids cnt)
  qed
next
  case (PutTask ident b t)
  with assms(2) have "''_id'' \<notin> fst ` set b" by simp
  with assms(1) have "stored_ids (snd (put_task P ident b t s)) = stored_ids s"
    by (rule put_task_stored_ids)
  moreover from assms(1)
  have "inMemoryIdCounter (snd (put_task P ident b t s)) = inMemoryIdCounter s"
    by (simp add: put_task_def Let_def split: option.splits)
  ultimately show ?thesis
    using assms(3) PutTask by (simp add: ids_apart_def)
next
  case (DeleteTask ident)
  show ?thesis
  proof (cases "findIndex (\<lambda>t. field t ''_id'' = Json (JStr ident)) (inMemoryTasks s)")
    case None
    with assms DeleteTask show ?thesis by (simp add: delete_task_def)
  next
    case (Some idx)
    with assms(1) DeleteTask
    have ids: "stored_ids (snd (handle P r s)) = splice1 idx (stored_ids s)"
      and cnt: "inMemoryIdCounter (snd (handle P r s)) = inMemoryIdCounter s"
      by (simp_all add: delete_task_def stored_ids_def splice1_def take_map drop_map)
    from assms(3) have "distinct (splice1 idx (stored_ids s))"
      by (simp add: ids_apart_def distinct_splice1)
    moreover have "set (splice1 idx (stored_ids s)) \<subseteq> set (stored_ids s)"
      by (auto simp: splice1_def dest: in_set_takeD in_set_dropD)
    with assms(3) have "list_all (serial_below (inMemoryIdCounter s)) (splice1 idx (stored_ids s))"
      by (auto simp: ids_apart_def list_all_iff)
    ultimately show ?thesis by (simp add: ids_apart_def ids cnt)
  qed
qed

lemma serve_ids_apart:
  assumes "\<not> isDbConnected s" and "\<forall>r\<in>set reqs. \<not> carries ''_id'' r" and "ids_apart s"
  shows "ids_apart (snd (serve P reqs s))"
  using assms
proof (induction reqs arbitrary: s)
  case Nil
  then show ?case by simp
next
  case (Cons r rs)
  let ?s' = "snd (handle P r s)"
  have "\<not> isDbConnected ?s'"
    using Cons.prems(1) by (rule handle_fallback_stays)
  moreover from Cons.prems(2) have "\<forall>r\<in>set rs. \<not> carries ''_id'' r" by simp
  moreover from Cons.prems have "ids_apart ?s'"
    by (simp add: handle_ids_apart)
  ultimately have "ids_apart (snd (serve P rs ?s'))" by (rule Cons.IH)
  then show ?case by (simp del: serve.simps(2) add: serve_Cons)
qed

lemma startup_ids_distinct:
  assumes "\<not> isDbConnected (startup c d)" and "\<forall>r\<in>set reqs. \<not> carries ''_id'' r"
  shows "distinct (map (\<lambda>t. field t ''_id'') (inMemoryTasks (snd (serve P reqs (startup c d)))))"
proof -
  have "ids_apart (startup c d)"
    by (simp add: ids_apart_def stored_ids_def startup_def)
  with assms have "ids_apart (snd (serve P reqs (startup c d)))"
    by (rule serve_ids_apart)
  then show ?thesis by (simp add: ids_apart_def stored_ids_def)
qed

end
